theory Spec2Isabelle
  imports Complex_Main "HOL-Library.Word"
begin

section \<open>Values of the host language\<close>

text \<open>
  The program is JavaScript running in a browser.  A byte buffer (\<open>ArrayBuffer\<close>,
  \<open>Uint8Array\<close>) is a list of 8-bit words.  A JavaScript string is kept as the list of
  its Unicode code points; string literals of the source are written with \<open>lit\<close>.
\<close>

type_synonym byte = "8 word"
type_synonym jstring = "nat list"

definition lit :: "string \<Rightarrow> jstring" where
  "lit s = map of_char s"

text \<open>
  A JavaScript number is a double: a finite value (kept as the rational it denotes), NaN
  or an infinity.  The only arithmetic the program does on numbers read from a file is
  \<open>i < n\<close>, \<open>x + 1\<close> on an array index and \<open>x % n\<close>, all exact on doubles.
\<close>

datatype jsnum = Fin rat | NaN | PosInf | NegInf

text \<open>A value: \<open>undefined\<close> or what \<open>JSON.parse\<close> returns.  An object lists its
  members in order, each key once.\<close>

datatype jsval =
    JUndefined
  | JNull
  | JBool bool
  | JNum jsnum
  | JStr jstring
  | JArr "jsval list"
  | JObj "(jstring \<times> jsval) list"

text \<open>The exceptions that leave \<open>AGIFDecoder.decode\<close>: three thrown by the program
  itself (\<open>throw new Error(...)\<close>, lines 11, 25 and 63 of script.js) and the ones thrown
  or rejected by the host: an out-of-bounds view (\<open>RangeError\<close>), \<open>JSON.parse\<close>
  (\<open>SyntaxError\<close>), a property read on \<open>null\<close> (\<open>TypeError\<close>) and an asset the
  host cannot load (\<open>AssetError\<close>).\<close>

datatype error =
    RangeError
  | SyntaxError
  | TypeError
  | MissingMagic
  | Unsupported jsval jsval
  | ExtraBytes int
  | AssetError

text \<open>\<open>i < n\<close> for a loop counter \<open>i\<close> and a number \<open>n\<close>.\<close>

fun js_lt :: "nat \<Rightarrow> jsnum \<Rightarrow> bool" where
  "js_lt i (Fin q) = (of_nat i < q)"
| "js_lt i PosInf = True"
| "js_lt i NaN = False"
| "js_lt i NegInf = False"

text \<open>Property read \<open>v.k\<close>: a \<open>TypeError\<close> on \<open>null\<close> and \<open>undefined\<close>, the stored
  value on an object that has the key, \<open>undefined\<close> otherwise (none of the keys the
  program reads is defined on a prototype).\<close>

fun get_prop :: "jsval \<Rightarrow> jstring \<Rightarrow> error + jsval" where
  "get_prop JUndefined k = Inl TypeError"
| "get_prop JNull k = Inl TypeError"
| "get_prop (JObj kvs) k = Inr (case map_of kvs k of Some v \<Rightarrow> v | None \<Rightarrow> JUndefined)"
| "get_prop v k = Inr JUndefined"

text \<open>Truthiness, as \<open>||\<close> and \<open>&&\<close> test it.\<close>

fun truthy :: "jsval \<Rightarrow> bool" where
  "truthy JUndefined = False"
| "truthy JNull = False"
| "truthy (JBool b) = b"
| "truthy (JNum (Fin q)) = (q \<noteq> 0)"
| "truthy (JNum NaN) = False"
| "truthy (JNum n) = True"
| "truthy (JStr s) = (s \<noteq> [])"
| "truthy v = True"

section \<open>Capabilities supplied by the host\<close>

text \<open>
  \<open>JSON.parse\<close>, \<open>JSON.stringify\<close>, the coercion of a string, array or object to a
  number, the loading of an image from a data URL and \<open>decodeAudioData\<close> are not code of
  the repository.  The model takes them as a record of functions; \<open>None\<close> is the
  exception or rejected promise of the host.
\<close>

record ('img, 'clip) host =
  JSON_parse :: "jstring \<Rightarrow> jsval option"
  JSON_stringify :: "jsval \<Rightarrow> jstring"
  ToNumber_object :: "jsval \<Rightarrow> jsnum"
  load_image :: "jstring \<Rightarrow> 'img option"
  decodeAudioData :: "byte list \<Rightarrow> 'clip option"

text \<open>\<open>ToNumber\<close> on the primitive values is fixed by the language.\<close>

fun to_number :: "('img, 'clip) host \<Rightarrow> jsval \<Rightarrow> jsnum" where
  "to_number h JUndefined = NaN"
| "to_number h JNull = Fin 0"
| "to_number h (JBool b) = Fin (if b then 1 else 0)"
| "to_number h (JNum n) = n"
| "to_number h v = ToNumber_object h v"

section \<open>Views on a byte buffer\<close>

text \<open>\<open>new Uint8Array(buffer, off, len)\<close> throws a \<open>RangeError\<close> when the view would
  leave the buffer.\<close>

definition Uint8Array :: "byte list \<Rightarrow> nat \<Rightarrow> nat \<Rightarrow> error + byte list" where
  "Uint8Array buf off len =
     (if off + len \<le> length buf then Inr (take len (drop off buf)) else Inl RangeError)"

text \<open>\<open>view.getUint32(off, true)\<close>: four bytes, little-endian, or a \<open>RangeError\<close>.\<close>

definition getUint32 :: "byte list \<Rightarrow> nat \<Rightarrow> error + nat" where
  "getUint32 buf off =
     (if off + 4 \<le> length buf
      then Inr (unat (buf ! off) + 256 * unat (buf ! (off + 1))
                + 65536 * unat (buf ! (off + 2)) + 16777216 * unat (buf ! (off + 3)))
      else Inl RangeError)"

text \<open>\<open>new DataView(new ArrayBuffer(4)).setUint32(0, n, true)\<close>: the number is taken
  modulo \<open>2^32\<close>.\<close>

definition setUint32 :: "nat \<Rightarrow> byte list" where
  "setUint32 n =
     [of_nat (n mod 256), of_nat (n div 256 mod 256),
      of_nat (n div 65536 mod 256), of_nat (n div 16777216 mod 256)]"

section \<open>TextDecoder and TextEncoder\<close>

text \<open>
  \<open>new TextDecoder()\<close> is the UTF-8 decoder of the Encoding standard in replacement
  mode.  The state is the code point collected so far, the number of continuation bytes
  still needed, and the bounds of the next continuation byte.  A byte that cannot continue
  a sequence yields U+FFFD and is then read again as the first byte of a sequence.
\<close>

fun utf8_decode :: "nat \<Rightarrow> nat \<Rightarrow> nat \<Rightarrow> nat \<Rightarrow> nat list \<Rightarrow> jstring" where
  "utf8_decode cp need lo hi [] = (if need = 0 then [] else [0xFFFD])"
| "utf8_decode cp need lo hi (b # bs) =
     (if need \<noteq> 0 \<and> lo \<le> b \<and> b \<le> hi then
        (if need = 1 then (cp * 64 + b mod 64) # utf8_decode 0 0 0x80 0xBF bs
         else utf8_decode (cp * 64 + b mod 64) (need - 1) 0x80 0xBF bs)
      else
        (if need \<noteq> 0 then [0xFFFD] else []) @
        (if b < 0x80 then b # utf8_decode 0 0 0x80 0xBF bs
         else if 0xC2 \<le> b \<and> b \<le> 0xDF then utf8_decode (b mod 32) 1 0x80 0xBF bs
         else if 0xE0 \<le> b \<and> b \<le> 0xEF then
           utf8_decode (b mod 16) 2 (if b = 0xE0 then 0xA0 else 0x80)
             (if b = 0xED then 0x9F else 0xBF) bs
         else if 0xF0 \<le> b \<and> b \<le> 0xF4 then
           utf8_decode (b mod 8) 3 (if b = 0xF0 then 0x90 else 0x80)
             (if b = 0xF4 then 0x8F else 0xBF) bs
         else 0xFFFD # utf8_decode 0 0 0x80 0xBF bs))"

text \<open>\<open>textDecoder.decode(bytes)\<close>: decode, then drop a leading byte order mark
  (\<open>ignoreBOM\<close> is false by default).\<close>

definition TextDecoder_decode :: "byte list \<Rightarrow> jstring" where
  "TextDecoder_decode bs =
     (case utf8_decode 0 0 0x80 0xBF (map unat bs) of
        [] \<Rightarrow> []
      | c # cs \<Rightarrow> if c = 0xFEFF then cs else c # cs)"

text \<open>\<open>textEncoder.encode(s)\<close>: UTF-8; a lone surrogate is written as U+FFFD.\<close>

fun utf8_encode_cp :: "nat \<Rightarrow> byte list" where
  "utf8_encode_cp c =
     (if c < 0x80 then [of_nat c]
      else if c < 0x800 then [of_nat (0xC0 + c div 64), of_nat (0x80 + c mod 64)]
      else if (0xD800 \<le> c \<and> c \<le> 0xDFFF) \<or> 0x10FFFF < c then [0xEF, 0xBF, 0xBD]
      else if c < 0x10000 then
        [of_nat (0xE0 + c div 4096), of_nat (0x80 + c div 64 mod 64), of_nat (0x80 + c mod 64)]
      else
        [of_nat (0xF0 + c div 262144), of_nat (0x80 + c div 4096 mod 64),
         of_nat (0x80 + c div 64 mod 64), of_nat (0x80 + c mod 64)])"

definition TextEncoder_encode :: "jstring \<Rightarrow> byte list" where
  "TextEncoder_encode s = concat (map utf8_encode_cp s)"

section \<open>AGIFDecoder.decode\<close>

text \<open>
  The two \<open>for\<close> statements of lines 32--40 and 44--50 have one shape: while
  \<open>i < n\<close>, read a 4-byte length at the cursor, take a view of that many bytes behind
  it, and move the cursor past both.  \<open>read_sections\<close> is that loop; it returns the views in order and the final
  cursor.  Each round either throws or moves the cursor by at least four bytes, so the
  iteration ends even when \<open>n\<close> is infinite.
\<close>

function read_sections ::
  "byte list \<Rightarrow> jsnum \<Rightarrow> nat \<Rightarrow> nat \<Rightarrow> byte list list \<Rightarrow> error + (byte list list \<times> nat)"
where
  "read_sections buf n i off acc =
     (if js_lt i n then
        (case getUint32 buf off of
           Inl e \<Rightarrow> Inl e
         | Inr len \<Rightarrow>
             (case Uint8Array buf (off + 4) len of
                Inl e \<Rightarrow> Inl e
              | Inr bs \<Rightarrow> read_sections buf n (i + 1) (off + 4 + len) (acc @ [bs])))
      else Inr (acc, off))"
  by pat_completeness auto
termination
  by (relation "measure (\<lambda>(buf, n, i, off, acc). length buf - off)")
     (auto simp: getUint32_def Uint8Array_def split: if_splits)

declare read_sections.simps [simp del]

text \<open>Lines 30--40: each frame view is decoded as text and stored as a data URL.\<close>

definition read_frames ::
  "byte list \<Rightarrow> jsnum \<Rightarrow> nat \<Rightarrow> error + (jstring list \<times> nat)" where
  "read_frames buf n off =
     (case read_sections buf n 0 off [] of
        Inl e \<Rightarrow> Inl e
      | Inr (secs, off') \<Rightarrow>
          Inr (map (\<lambda>bs. lit ''data:image/png;base64,'' @ TextDecoder_decode bs) secs, off'))"

text \<open>Lines 42--50: each audio view is stored as it is.\<close>

definition read_audio ::
  "byte list \<Rightarrow> jsnum \<Rightarrow> nat \<Rightarrow> error + (byte list list \<times> nat)" where
  "read_audio buf n off = read_sections buf n 0 off []"

text \<open>What lines 4--68 have in hand when the end-of-file check has passed.\<close>

record container =
  c_header :: jsval
  c_frameData :: "jstring list"
  c_audioData :: "byte list list"
  c_triggers :: jsval

text \<open>Lines 4--68, statement by statement; every \<open>Inl\<close> is a throw.\<close>

definition parse_container :: "('img, 'clip) host \<Rightarrow> byte list \<Rightarrow> error + container" where
  "parse_container h buf =
     (case Uint8Array buf 0 4 of
        Inl e \<Rightarrow> Inl e
      | Inr m \<Rightarrow>
     if TextDecoder_decode m \<noteq> lit ''AGIF'' then Inl MissingMagic else
     (case getUint32 buf 4 of
        Inl e \<Rightarrow> Inl e
      | Inr headerLen \<Rightarrow>
     (case Uint8Array buf 8 headerLen of
        Inl e \<Rightarrow> Inl e
      | Inr hb \<Rightarrow>
     (case JSON_parse h (TextDecoder_decode hb) of
        None \<Rightarrow> Inl SyntaxError
      | Some hdr \<Rightarrow>
     (case get_prop hdr (lit ''version'') of
        Inl e \<Rightarrow> Inl e
      | Inr version \<Rightarrow>
     (case get_prop hdr (lit ''audioFormat'') of
        Inl e \<Rightarrow> Inl e
      | Inr audioFormat \<Rightarrow>
     if version \<noteq> JStr (lit ''1.0'') \<or> audioFormat \<noteq> JStr (lit ''wav'')
     then Inl (Unsupported version audioFormat) else
     (case get_prop hdr (lit ''numFrames'') of
        Inl e \<Rightarrow> Inl e
      | Inr numFrames \<Rightarrow>
     (case read_frames buf (to_number h numFrames) (8 + headerLen) of
        Inl e \<Rightarrow> Inl e
      | Inr (frameData, off1) \<Rightarrow>
     (case get_prop hdr (lit ''numAudioClips'') of
        Inl e \<Rightarrow> Inl e
      | Inr numAudioClips \<Rightarrow>
     (case read_audio buf (to_number h numAudioClips) off1 of
        Inl e \<Rightarrow> Inl e
      | Inr (audioData, off2) \<Rightarrow>
     (case getUint32 buf off2 of
        Inl e \<Rightarrow> Inl e
      | Inr triggerLen \<Rightarrow>
     (case Uint8Array buf (off2 + 4) triggerLen of
        Inl e \<Rightarrow> Inl e
      | Inr tb \<Rightarrow>
     (case JSON_parse h (TextDecoder_decode tb) of
        None \<Rightarrow> Inl SyntaxError
      | Some trg \<Rightarrow>
     if off2 + 4 + triggerLen \<noteq> length buf
     then Inl (ExtraBytes (int (length buf) - int (off2 + 4 + triggerLen)))
     else Inr \<lparr>c_header = hdr, c_frameData = frameData, c_audioData = audioData,
               c_triggers = trg\<rparr>)))))))))))))"

text \<open>\<open>Promise.all\<close> over a list of host decodes: the first failure rejects the whole.\<close>

fun all_loaded :: "('a \<Rightarrow> 'b option) \<Rightarrow> 'a list \<Rightarrow> error + 'b list" where
  "all_loaded f [] = Inr []"
| "all_loaded f (x # xs) =
     (case f x of
        None \<Rightarrow> Inl AssetError
      | Some y \<Rightarrow> (case all_loaded f xs of Inl e \<Rightarrow> Inl e | Inr ys \<Rightarrow> Inr (y # ys)))"

text \<open>The object returned at lines 91--97.\<close>

record ('img, 'clip) decoded =
  header :: jsval
  frames :: "'img list"
  audioBuffers :: "'clip list"
  triggers :: jsval
  loop :: bool

text \<open>The whole of \<open>decode\<close>: lines 4--68, the two \<open>Promise.all\<close> of lines 70--89 and
  the result, where \<open>triggers.frame_triggers || []\<close> and \<open>triggers.loop !== false\<close> read
  the parsed trigger section.\<close>

definition decode :: "('img, 'clip) host \<Rightarrow> byte list \<Rightarrow> error + ('img, 'clip) decoded" where
  "decode h buf =
     (case parse_container h buf of
        Inl e \<Rightarrow> Inl e
      | Inr c \<Rightarrow>
     (case all_loaded (load_image h) (c_frameData c) of
        Inl e \<Rightarrow> Inl e
      | Inr imgs \<Rightarrow>
     (case all_loaded (decodeAudioData h) (c_audioData c) of
        Inl e \<Rightarrow> Inl e
      | Inr clips \<Rightarrow>
     (case get_prop (c_triggers c) (lit ''frame_triggers'') of
        Inl e \<Rightarrow> Inl e
      | Inr ft \<Rightarrow>
     (case get_prop (c_triggers c) (lit ''loop'') of
        Inl e \<Rightarrow> Inl e
      | Inr lp \<Rightarrow>
          Inr \<lparr>header = c_header c, frames = imgs, audioBuffers = clips,
               triggers = (if truthy ft then ft else JArr []),
               loop = (lp \<noteq> JBool False)\<rparr>)))))"

section \<open>audioBufferToWav\<close>

text \<open>
  An \<open>AudioBuffer\<close>: its sample rate (a whole number of hertz), its length in sample
  frames and one list of samples per channel.  A sample is an element of a \<open>Float32Array\<close>: a finite binary
  fraction with a 24-bit significand, an infinity or NaN.  Its product with \<open>0x8000\<close>
  or \<open>0x7fff\<close> has at most 39 significant bits and so is exact in double arithmetic:
  the rational product below is the value the program computes.
\<close>

record audio_buffer =
  sampleRate :: nat
  ab_length :: nat
  channelData :: "jsnum list list"

definition numberOfChannels :: "audio_buffer \<Rightarrow> nat" where
  "numberOfChannels b = length (channelData b)"

text \<open>\<open>buffer.getChannelData(channel)[i]\<close>; an index outside the array reads
  \<open>undefined\<close>, which \<open>Math.min\<close> turns into NaN.\<close>

definition sample_at :: "audio_buffer \<Rightarrow> nat \<Rightarrow> nat \<Rightarrow> jsnum" where
  "sample_at b channel i =
     (if channel < length (channelData b) \<and> i < length (channelData b ! channel)
      then channelData b ! channel ! i else NaN)"

fun Math_min :: "jsnum \<Rightarrow> jsnum \<Rightarrow> jsnum" where
  "Math_min NaN y = NaN"
| "Math_min x NaN = NaN"
| "Math_min NegInf y = NegInf"
| "Math_min x NegInf = NegInf"
| "Math_min PosInf y = y"
| "Math_min x PosInf = x"
| "Math_min (Fin a) (Fin b) = Fin (min a b)"

fun Math_max :: "jsnum \<Rightarrow> jsnum \<Rightarrow> jsnum" where
  "Math_max NaN y = NaN"
| "Math_max x NaN = NaN"
| "Math_max PosInf y = PosInf"
| "Math_max x PosInf = PosInf"
| "Math_max NegInf y = y"
| "Math_max x NegInf = x"
| "Math_max (Fin a) (Fin b) = Fin (max a b)"

text \<open>\<open>x < 0\<close> and \<open>x * c\<close> for a positive constant \<open>c\<close>.\<close>

fun js_negative :: "jsnum \<Rightarrow> bool" where
  "js_negative (Fin q) = (q < 0)"
| "js_negative NegInf = True"
| "js_negative x = False"

fun js_scale :: "jsnum \<Rightarrow> rat \<Rightarrow> jsnum" where
  "js_scale (Fin q) c = Fin (q * c)"
| "js_scale x c = x"

text \<open>\<open>ToInt16\<close>, which \<open>setInt16\<close> applies to its argument: NaN and the infinities
  become 0, a finite number is truncated towards zero and taken modulo \<open>2^16\<close> into the
  signed range.\<close>

definition trunc :: "rat \<Rightarrow> int" where
  "trunc q = (if q < 0 then - \<lfloor>- q\<rfloor> else \<lfloor>q\<rfloor>)"

fun to_int16 :: "jsnum \<Rightarrow> int" where
  "to_int16 (Fin q) =
     (let u = trunc q mod 65536 in if u \<ge> 32768 then u - 65536 else u)"
| "to_int16 x = 0"

text \<open>\<open>view.setInt16(offset, x, true)\<close> writes the two bytes of \<open>ToInt16(x)\<close>, low
  byte first; \<open>getInt16\<close> reads them back.\<close>

definition setInt16 :: "jsnum \<Rightarrow> byte list" where
  "setInt16 x = [of_int (to_int16 x mod 256), of_int (to_int16 x mod 65536 div 256)]"

definition getInt16 :: "byte list \<Rightarrow> int" where
  "getInt16 bs =
     (let u = uint (bs ! 0) + 256 * uint (bs ! 1) in if u \<ge> 32768 then u - 65536 else u)"

definition setUint16 :: "nat \<Rightarrow> byte list" where
  "setUint16 n = [of_nat (n mod 256), of_nat (n div 256 mod 256)]"

text \<open>\<open>writeString\<close> stores the low byte of each UTF-16 code unit.\<close>

definition writeString :: "string \<Rightarrow> byte list" where
  "writeString s = map (\<lambda>c. of_nat (of_char c)) s"

text \<open>Lines 439--447 for one sample.\<close>

definition clamp_sample :: "jsnum \<Rightarrow> jsnum" where
  "clamp_sample x = Math_max (Fin (- 1)) (Math_min (Fin 1) x)"

definition encode_sample :: "jsnum \<Rightarrow> byte list" where
  "encode_sample x =
     (let sample = clamp_sample x
      in setInt16 (if js_negative sample then js_scale sample 0x8000
                   else js_scale sample 0x7fff))"

text \<open>
  The function writes every byte of the buffer it allocates exactly once, at increasing
  offsets (the header fields at 0 to 43, then two bytes per sample from 44 on), so the
  result is the concatenation of what it writes.
\<close>

definition audioBufferToWav :: "audio_buffer \<Rightarrow> byte list" where
  "audioBufferToWav buffer =
     (let numChannels = numberOfChannels buffer;
          sampleRate = sampleRate buffer
      in writeString ''RIFF'' @
         setUint32 (36 + ab_length buffer * numChannels * 2) @
         writeString ''WAVE'' @
         writeString ''fmt '' @
         setUint32 16 @
         setUint16 1 @
         setUint16 numChannels @
         setUint32 sampleRate @
         setUint32 (sampleRate * numChannels * 2) @
         setUint16 (numChannels * 2) @
         setUint16 16 @
         writeString ''data'' @
         setUint32 (ab_length buffer * numChannels * 2) @
         concat (map (\<lambda>i. concat (map (\<lambda>channel. encode_sample (sample_at buffer channel i))
                                      [0..<numChannels]))
                     [0..<ab_length buffer]))"

section \<open>createAudiGIF\<close>

text \<open>
  A trigger is \<open>{frame: number, audio: number}\<close> (line 95, lines 279 and 305).  The
  encoder reads the module-level variables \<open>images\<close>, \<open>audioFiles\<close>, \<open>triggers\<close>
  and \<open>frameRate\<close>; the record holds, for each image, the base64 text that the canvas
  returns at line 364, and for each audio file the \<open>AudioBuffer\<close> that the host decodes
  at line 381.  There is no variable for a loop setting.
\<close>

record trigger =
  frame :: jsnum
  audio :: jsnum

record authoring =
  g_images :: "jstring list"
  g_audioFiles :: "audio_buffer list"
  g_triggers :: "trigger list"
  g_frameRate :: jsnum

definition nat_num :: "nat \<Rightarrow> jsval" where
  "nat_num n = JNum (Fin (of_nat n))"

definition header_of :: "authoring \<Rightarrow> jsval" where
  "header_of st =
     JObj [(lit ''magic'', JStr (lit ''AGIF'')),
           (lit ''version'', JStr (lit ''1.0'')),
           (lit ''width'', nat_num 300),
           (lit ''height'', nat_num 300),
           (lit ''frameRate'', JNum (g_frameRate st)),
           (lit ''audioFormat'', JStr (lit ''wav'')),
           (lit ''numFrames'', nat_num (length (g_images st))),
           (lit ''numAudioClips'', nat_num (length (g_audioFiles st)))]"

definition trigger_json :: "trigger \<Rightarrow> jsval" where
  "trigger_json t = JObj [(lit ''frame'', JNum (frame t)), (lit ''audio'', JNum (audio t))]"

definition triggerMap_of :: "authoring \<Rightarrow> jsval" where
  "triggerMap_of st =
     JObj [(lit ''frame_triggers'', JArr (map trigger_json (g_triggers st))),
           (lit ''loop'', JBool True)]"

text \<open>A length prefix and the bytes it counts (lines 370--374 and 388--392).\<close>

definition with_length :: "byte list \<Rightarrow> byte list" where
  "with_length bs = setUint32 (length bs) @ bs"

text \<open>The bytes of the \<open>Blob\<close> built at lines 402--411.\<close>

definition createAudiGIF :: "('img, 'clip) host \<Rightarrow> authoring \<Rightarrow> byte list" where
  "createAudiGIF h st =
     (let magicBytes = TextEncoder_encode (lit ''AGIF'');
          headerBytes = TextEncoder_encode (JSON_stringify h (header_of st));
          frameBytesArr = map TextEncoder_encode (g_images st);
          frameParts = concat (map with_length frameBytesArr);
          audioData = map audioBufferToWav (g_audioFiles st);
          audioParts = concat (map with_length audioData);
          triggerBytes = TextEncoder_encode (JSON_stringify h (triggerMap_of st))
      in magicBytes @ setUint32 (length headerBytes) @ headerBytes @
         frameParts @ audioParts @
         setUint32 (length triggerBytes) @ triggerBytes)"

section \<open>A reference host\<close>

text \<open>
  To run the model on concrete buffers, \<open>ref_host\<close> supplies the capabilities: a JSON
  writer and a JSON reader over code points that are exact on the documents the encoder
  writes and the decoder expects (objects, arrays, strings, integers, \<open>true\<close>,
  \<open>false\<close>, \<open>null\<close>, white space between tokens).  A number with a fraction or an
  exponent and a \<open>\u\<close> escape are outside this reader, which rejects them; a number
  that is not an integer is outside this writer, which prints it like NaN, as
  \<open>null\<close>, and so is a control character that has no two-character escape, which it
  prints as it is.  Images and audio clips are kept as the data URL and the bytes they would be
  decoded from, and the coercion of a string, array or object to a number, which none of
  these documents needs, is NaN throughout.  No theorem about an arbitrary host depends on
  \<open>ref_host\<close>.
\<close>

text \<open>The decimal digits of a natural number.\<close>

function show_nat :: "nat \<Rightarrow> jstring" where
  "show_nat n = (if n < 10 then [48 + n] else show_nat (n div 10) @ [48 + n mod 10])"
  by pat_completeness auto
termination
  by (relation "measure (\<lambda>n. n)") auto

declare show_nat.simps [simp del]

definition is_integer :: "rat \<Rightarrow> bool" where
  "is_integer q = (of_int \<lfloor>q\<rfloor> = q)"

fun show_num :: "jsnum \<Rightarrow> jstring" where
  "show_num (Fin q) =
     (if is_integer q
      then (if q < 0 then lit ''-'' @ show_nat (nat (- \<lfloor>q\<rfloor>)) else show_nat (nat \<lfloor>q\<rfloor>))
      else lit ''null'')"
| "show_num n = lit ''null''"

text \<open>Code points are written in hexadecimal where the character is a quote (\<open>0x22\<close>)
  or a backslash (\<open>0x5C\<close>).\<close>

fun quote_char :: "nat \<Rightarrow> jstring" where
  "quote_char c =
     (if c = 0x22 then [0x5C, 0x22] else if c = 0x5C then [0x5C, 0x5C]
      else if c = 0x08 then 0x5C # lit ''b'' else if c = 0x0C then 0x5C # lit ''f''
      else if c = 0x0A then 0x5C # lit ''n'' else if c = 0x0D then 0x5C # lit ''r''
      else if c = 0x09 then 0x5C # lit ''t'' else [c])"

definition quote :: "jstring \<Rightarrow> jstring" where
  "quote s = [0x22] @ concat (map quote_char s) @ [0x22]"

fun join_comma :: "jstring list \<Rightarrow> jstring" where
  "join_comma [] = []"
| "join_comma [x] = x"
| "join_comma (x # y # ys) = x @ lit '','' @ join_comma (y # ys)"

text \<open>Inside an array \<open>undefined\<close> is written as \<open>null\<close>; inside an object a member
  whose value is \<open>undefined\<close> is left out.\<close>

fun ref_stringify :: "jsval \<Rightarrow> jstring" where
  "ref_stringify JUndefined = lit ''null''"
| "ref_stringify JNull = lit ''null''"
| "ref_stringify (JBool b) = (if b then lit ''true'' else lit ''false'')"
| "ref_stringify (JNum n) = show_num n"
| "ref_stringify (JStr s) = quote s"
| "ref_stringify (JArr vs) = lit ''['' @ join_comma (map ref_stringify vs) @ lit '']''"
| "ref_stringify (JObj kvs) =
     lit ''{'' @
     join_comma (map (\<lambda>(k, v). quote k @ lit '':'' @ ref_stringify v)
                   (filter (\<lambda>(k, v). v \<noteq> JUndefined) kvs)) @
     lit ''}''"

definition is_ws :: "nat \<Rightarrow> bool" where
  "is_ws c = (c = 0x20 \<or> c = 0x09 \<or> c = 0x0A \<or> c = 0x0D)"

definition is_digit :: "nat \<Rightarrow> bool" where
  "is_digit c = (48 \<le> c \<and> c \<le> 57)"

definition skip_ws :: "jstring \<Rightarrow> jstring" where
  "skip_ws s = dropWhile is_ws s"

definition read_nat :: "jstring \<Rightarrow> nat" where
  "read_nat ds = foldl (\<lambda>a d. 10 * a + (d - 48)) 0 ds"

text \<open>An integer literal: an optional minus, then \<open>0\<close> or digits not starting with
  \<open>0\<close>; a fraction or exponent behind it is rejected.\<close>

definition parse_number :: "jstring \<Rightarrow> (jsval \<times> jstring) option" where
  "parse_number s =
     (let neg = (s \<noteq> [] \<and> hd s = 0x2D);
          t = (if neg then tl s else s);
          ds = takeWhile is_digit t;
          r = dropWhile is_digit t
      in if ds = [] \<or> (hd ds = 48 \<and> length ds > 1) then None
         else if r \<noteq> [] \<and> (hd r = 0x2E \<or> hd r = 0x65 \<or> hd r = 0x45) then None
         else Some (JNum (Fin (if neg then - of_nat (read_nat ds) else of_nat (read_nat ds))), r))"

text \<open>The characters of a string literal behind its opening quote.\<close>

fun parse_string :: "jstring \<Rightarrow> jstring \<Rightarrow> (jstring \<times> jstring) option" where
  "parse_string acc [] = None"
| "parse_string acc (c # cs) =
     (if c = 0x22 then Some (acc, cs)
      else if c < 0x20 then None
      else if c = 0x5C then
        (case cs of
           [] \<Rightarrow> None
         | e # es \<Rightarrow>
             if e = 0x22 \<or> e = 0x5C \<or> e = 0x2F then parse_string (acc @ [e]) es
             else if e = 0x62 then parse_string (acc @ [0x08]) es
             else if e = 0x66 then parse_string (acc @ [0x0C]) es
             else if e = 0x6E then parse_string (acc @ [0x0A]) es
             else if e = 0x72 then parse_string (acc @ [0x0D]) es
             else if e = 0x74 then parse_string (acc @ [0x09]) es
             else None)
      else parse_string (acc @ [c]) cs)"

text \<open>A member read twice keeps its place and takes the later value.\<close>

fun obj_put :: "jstring \<Rightarrow> jsval \<Rightarrow> (jstring \<times> jsval) list \<Rightarrow> (jstring \<times> jsval) list" where
  "obj_put k v [] = [(k, v)]"
| "obj_put k v ((k', v') # kvs) = (if k = k' then (k, v) # kvs else (k', v') # obj_put k v kvs)"

definition expect :: "jstring \<Rightarrow> jsval \<Rightarrow> jstring \<Rightarrow> (jsval \<times> jstring) option" where
  "expect w v s = (if take (length w) s = w then Some (v, drop (length w) s) else None)"

text \<open>The reader, by recursive descent; the first argument bounds the nesting and the
  number of elements, and \<open>ref_parse\<close> gives it the length of the text.\<close>

fun parse_value :: "nat \<Rightarrow> jstring \<Rightarrow> (jsval \<times> jstring) option"
  and parse_elems :: "nat \<Rightarrow> jsval list \<Rightarrow> jstring \<Rightarrow> (jsval \<times> jstring) option"
  and parse_members :: "nat \<Rightarrow> (jstring \<times> jsval) list \<Rightarrow> jstring \<Rightarrow> (jsval \<times> jstring) option"
where
  "parse_value 0 s = None"
| "parse_value (Suc f) s =
     (case skip_ws s of
        [] \<Rightarrow> None
      | c # cs \<Rightarrow>
          if c = 0x6E then expect (lit ''null'') JNull (c # cs)
          else if c = 0x74 then expect (lit ''true'') (JBool True) (c # cs)
          else if c = 0x66 then expect (lit ''false'') (JBool False) (c # cs)
          else if c = 0x22 then
            (case parse_string [] cs of None \<Rightarrow> None | Some (str, r) \<Rightarrow> Some (JStr str, r))
          else if c = 0x5B then
            (case skip_ws cs of
               [] \<Rightarrow> None
             | d # ds \<Rightarrow> if d = 0x5D then Some (JArr [], ds) else parse_elems f [] cs)
          else if c = 0x7B then
            (case skip_ws cs of
               [] \<Rightarrow> None
             | d # ds \<Rightarrow> if d = 0x7D then Some (JObj [], ds) else parse_members f [] cs)
          else parse_number (c # cs))"
| "parse_elems 0 acc s = None"
| "parse_elems (Suc f) acc s =
     (case parse_value f s of
        None \<Rightarrow> None
      | Some (v, r) \<Rightarrow>
          (case skip_ws r of
             [] \<Rightarrow> None
           | c # cs \<Rightarrow>
               if c = 0x5D then Some (JArr (acc @ [v]), cs)
               else if c = 0x2C then parse_elems f (acc @ [v]) cs
               else None))"
| "parse_members 0 acc s = None"
| "parse_members (Suc f) acc s =
     (case skip_ws s of
        [] \<Rightarrow> None
      | q # qs \<Rightarrow>
          if q \<noteq> 0x22 then None else
          (case parse_string [] qs of
             None \<Rightarrow> None
           | Some (k, r) \<Rightarrow>
               (case skip_ws r of
                  [] \<Rightarrow> None
                | c # cs \<Rightarrow>
                    if c \<noteq> 0x3A then None else
                    (case parse_value f cs of
                       None \<Rightarrow> None
                     | Some (v, r') \<Rightarrow>
                         (case skip_ws r' of
                            [] \<Rightarrow> None
                          | e # es \<Rightarrow>
                              if e = 0x7D then Some (JObj (obj_put k v acc), es)
                              else if e = 0x2C then parse_members f (obj_put k v acc) es
                              else None)))))"

definition ref_parse :: "jstring \<Rightarrow> jsval option" where
  "ref_parse s =
     (case parse_value (Suc (length s)) s of
        None \<Rightarrow> None
      | Some (v, r) \<Rightarrow> if skip_ws r = [] then Some v else None)"

definition ref_host :: "(jstring, byte list) host" where
  "ref_host = \<lparr>JSON_parse = ref_parse, JSON_stringify = ref_stringify,
               ToNumber_object = (\<lambda>v. NaN), load_image = Some, decodeAudioData = Some\<rparr>"

section \<open>AGIFPlayer\<close>

text \<open>
  What the player reads from \<open>this.decoded\<close>: the loaded frames, the decoded clips, the
  number \<open>header.numFrames\<close>, the triggers and the loop flag.  The trigger list is taken
  in the shape line 95 documents, \<open>{frame: number, audio: number}\<close>; \<open>loaded_of\<close>
  gives this view of a result of \<open>decode\<close>, and has none when an entry of the trigger
  section has another shape.
\<close>

record ('img, 'clip) loaded =
  l_frames :: "'img list"
  l_audioBuffers :: "'clip list"
  l_numFrames :: jsnum
  l_triggers :: "trigger list"
  l_loop :: bool

fun typed_trigger :: "jsval \<Rightarrow> trigger option" where
  "typed_trigger (JObj kvs) =
     (case (map_of kvs (lit ''frame''), map_of kvs (lit ''audio'')) of
        (Some (JNum f), Some (JNum a)) \<Rightarrow> Some \<lparr>frame = f, audio = a\<rparr>
      | _ \<Rightarrow> None)"
| "typed_trigger v = None"

fun typed_triggers :: "jsval list \<Rightarrow> trigger list option" where
  "typed_triggers [] = Some []"
| "typed_triggers (v # vs) =
     (case typed_trigger v of
        None \<Rightarrow> None
      | Some t \<Rightarrow> (case typed_triggers vs of None \<Rightarrow> None | Some ts \<Rightarrow> Some (t # ts)))"

definition loaded_of ::
  "('img, 'clip) host \<Rightarrow> ('img, 'clip) decoded \<Rightarrow> ('img, 'clip) loaded option" where
  "loaded_of h d =
     (case (get_prop (header d) (lit ''numFrames''), triggers d) of
        (Inr n, JArr vs) \<Rightarrow>
          (case typed_triggers vs of
             None \<Rightarrow> None
           | Some ts \<Rightarrow>
               Some \<lparr>l_frames = frames d, l_audioBuffers = audioBuffers d,
                     l_numFrames = to_number h n, l_triggers = ts, l_loop = loop d\<rparr>)
      | _ \<Rightarrow> None)"

text \<open>
  The player object (\<open>isPlaying\<close>, \<open>currentFrame\<close>, \<open>animationId\<close>, \<open>decoded\<close>)
  together with the part of the browser it acts on: the pending \<open>setTimeout\<close> handles,
  whose callback requests an animation frame; the pending \<open>requestAnimationFrame\<close>
  handles, whose callback is \<open>animate\<close>; the two handle counters (timers and animation
  frames are numbered separately, from 1); the images passed to \<open>drawImage\<close>, the clips
  started, and the exceptions that left a call, each in order.
\<close>

record ('img, 'clip) player =
  isPlaying :: bool
  currentFrame :: jsnum
  animationId :: "nat option"
  decoded :: "('img, 'clip) loaded option"
  timeouts :: "nat list"
  rafs :: "nat list"
  timeout_count :: nat
  raf_count :: nat
  drawn :: "'img list"
  started :: "'clip list"
  thrown :: "error list"

text \<open>The state the constructor leaves, once \<open>loadAndPlay\<close> has stored a container.\<close>

definition new_player :: "('img, 'clip) loaded option \<Rightarrow> ('img, 'clip) player" where
  "new_player d =
     \<lparr>isPlaying = False, currentFrame = Fin 0, animationId = None, decoded = d,
      timeouts = [], rafs = [], timeout_count = 0, raf_count = 0,
      drawn = [], started = [], thrown = []\<rparr>"

text \<open>\<open>a[x]\<close> for an array \<open>a\<close> and a number \<open>x\<close>: an element when \<open>x\<close> is an index
  of the array, \<open>undefined\<close> otherwise.\<close>

definition element_at :: "'a list \<Rightarrow> jsnum \<Rightarrow> 'a option" where
  "element_at xs x =
     (case x of
        Fin q \<Rightarrow> if is_integer q \<and> 0 \<le> q \<and> nat \<lfloor>q\<rfloor> < length xs
                 then Some (xs ! nat \<lfloor>q\<rfloor>) else None
      | _ \<Rightarrow> None)"

text \<open>\<open>x === y\<close> on numbers, \<open>x + 1\<close> and \<open>x % n\<close>.\<close>

fun js_eq :: "jsnum \<Rightarrow> jsnum \<Rightarrow> bool" where
  "js_eq NaN y = False"
| "js_eq x NaN = False"
| "js_eq x y = (x = y)"

fun js_succ :: "jsnum \<Rightarrow> jsnum" where
  "js_succ (Fin q) = Fin (q + 1)"
| "js_succ x = x"

fun js_rem :: "jsnum \<Rightarrow> jsnum \<Rightarrow> jsnum" where
  "js_rem (Fin a) (Fin n) = (if n = 0 then NaN else Fin (a - n * of_int (trunc (a / n))))"
| "js_rem (Fin a) PosInf = Fin a"
| "js_rem (Fin a) NegInf = Fin a"
| "js_rem x y = NaN"

text \<open>Lines 179--186: \<open>triggers.forEach\<close>; a clip is started for a trigger whose frame
  is the current one and whose \<open>audioBuffers[trigger.audio]\<close> is an element.\<close>

fun dispatch :: "jsnum \<Rightarrow> 'clip list \<Rightarrow> trigger list \<Rightarrow> 'clip list \<Rightarrow> 'clip list" where
  "dispatch cur clips [] out = out"
| "dispatch cur clips (t # ts) out =
     (if js_eq (frame t) cur
      then (case element_at clips (audio t) of
              Some c \<Rightarrow> dispatch cur clips ts (out @ [c])
            | None \<Rightarrow> dispatch cur clips ts out)
      else dispatch cur clips ts out)"

text \<open>\<open>setTimeout(...)\<close> at line 192 takes the next timer handle and leaves it pending;
  \<open>cancelAnimationFrame(handle)\<close> removes the animation frame request numbered \<open>handle\<close>.\<close>

definition setTimeout :: "('img, 'clip) player \<Rightarrow> nat \<times> ('img, 'clip) player" where
  "setTimeout w =
     (let handle = Suc (timeout_count w)
      in (handle, w\<lparr>timeout_count := handle, timeouts := timeouts w @ [handle]\<rparr>))"

definition cancelAnimationFrame :: "nat \<Rightarrow> ('img, 'clip) player \<Rightarrow> ('img, 'clip) player" where
  "cancelAnimationFrame handle w = w\<lparr>rafs := filter (\<lambda>r. r \<noteq> handle) (rafs w)\<rparr>"

text \<open>\<open>animate\<close>, lines 160--195.  Reading \<open>this.decoded\<close> when there is none, and
  \<open>drawImage\<close> of \<open>undefined\<close>, throw a \<open>TypeError\<close> that ends the call.\<close>

definition animate :: "('img, 'clip) player \<Rightarrow> ('img, 'clip) player" where
  "animate w =
     (if \<not> isPlaying w then w else
      case decoded w of
        None \<Rightarrow> w\<lparr>thrown := thrown w @ [TypeError]\<rparr>
      | Some d \<Rightarrow>
          if l_frames d = [] then w else
          (case element_at (l_frames d) (currentFrame w) of
             None \<Rightarrow> w\<lparr>thrown := thrown w @ [TypeError]\<rparr>
           | Some img \<Rightarrow>
               (let w1 = w\<lparr>drawn := drawn w @ [img]\<rparr>;
                    w2 = w1\<lparr>started :=
                              dispatch (currentFrame w1) (l_audioBuffers d) (l_triggers d)
                                (started w1)\<rparr>;
                    w3 = w2\<lparr>currentFrame := js_rem (js_succ (currentFrame w2)) (l_numFrames d)\<rparr>;
                    (handle, w4) = setTimeout w3
                in w4\<lparr>animationId := Some handle\<rparr>)))"

text \<open>\<open>play\<close>, lines 146--150, and \<open>pause\<close>, lines 152--158.\<close>

definition play :: "('img, 'clip) player \<Rightarrow> ('img, 'clip) player" where
  "play w =
     (if isPlaying w \<or> decoded w = None then w
      else animate (w\<lparr>isPlaying := True\<rparr>))"

definition pause :: "('img, 'clip) player \<Rightarrow> ('img, 'clip) player" where
  "pause w =
     (let w1 = w\<lparr>isPlaying := False\<rparr>
      in case animationId w1 of
           None \<Rightarrow> w1
         | Some handle \<Rightarrow>
             if handle \<noteq> 0 then (cancelAnimationFrame handle w1)\<lparr>animationId := None\<rparr> else w1)"

text \<open>The browser runs a pending timer: its callback requests an animation frame
  (line 193).  The browser runs a pending animation frame request: its callback is
  \<open>animate\<close>.\<close>

definition fire_timeout :: "nat \<Rightarrow> ('img, 'clip) player \<Rightarrow> ('img, 'clip) player" where
  "fire_timeout handle w =
     (if handle \<in> set (timeouts w)
      then w\<lparr>timeouts := filter (\<lambda>t. t \<noteq> handle) (timeouts w),
              raf_count := Suc (raf_count w),
              rafs := rafs w @ [Suc (raf_count w)]\<rparr>
      else w)"

definition fire_raf :: "nat \<Rightarrow> ('img, 'clip) player \<Rightarrow> ('img, 'clip) player" where
  "fire_raf handle w =
     (if handle \<in> set (rafs w)
      then animate (w\<lparr>rafs := filter (\<lambda>r. r \<noteq> handle) (rafs w)\<rparr>)
      else w)"

section \<open>Conditions on an encoder input\<close>

text \<open>A text is ASCII when every code point is below 128; base64 text is.\<close>

definition is_ascii :: "jstring \<Rightarrow> bool" where
  "is_ascii s = list_all (\<lambda>c. c < 128) s"

text \<open>The host reads back a JSON value it writes: the text it writes is ASCII, its
  length fits the 32-bit length prefix, and parsing it gives the value again.\<close>

definition reads_back :: "('img, 'clip) host \<Rightarrow> jsval \<Rightarrow> bool" where
  "reads_back h v \<longleftrightarrow>
     is_ascii (JSON_stringify h v) \<and> length (JSON_stringify h v) < 4294967296 \<and>
     JSON_parse h (JSON_stringify h v) = Some v"

section \<open>A concrete authoring session\<close>

text \<open>Two frames, one mono clip of two samples (full scale up, full scale down), one
  trigger that plays the clip on the second frame, ten frames per second.\<close>

definition demo_clip :: audio_buffer where
  "demo_clip = \<lparr>sampleRate = 8000, ab_length = 2, channelData = [[Fin 1, Fin (- 1)]]\<rparr>"

definition demo :: authoring where
  "demo = \<lparr>g_images = [lit ''iVBOR'', lit ''QUJD''],
           g_audioFiles = [demo_clip],
           g_triggers = [\<lparr>frame = Fin 1, audio = Fin 0\<rparr>],
           g_frameRate = Fin 10\<rparr>"

text \<open>
  The specification describes the encoder input as carrying a TriggerMap: a trigger list
  and a \<open>loop\<close> boolean.  \<open>authoring_with\<close> is the only way such a map reaches
  \<open>createAudiGIF\<close>: its trigger list becomes the variable \<open>triggers\<close>, and its
  \<open>loop\<close> field has no variable to go to.
\<close>

record TriggerMap =
  tm_frame_triggers :: "trigger list"
  tm_loop :: bool

definition authoring_with ::
  "jsnum \<Rightarrow> jstring list \<Rightarrow> audio_buffer list \<Rightarrow> TriggerMap \<Rightarrow> authoring" where
  "authoring_with rate imgs clips tm =
     \<lparr>g_images = imgs, g_audioFiles = clips, g_triggers = tm_frame_triggers tm,
      g_frameRate = rate\<rparr>"

text \<open>A loaded container of three frames and one clip, with a trigger that plays the
  clip on frame 1, and a loop flag that is \<open>false\<close>.\<close>

definition demo_loaded :: "(jstring, byte list) loaded" where
  "demo_loaded =
     \<lparr>l_frames = [lit ''frame0'', lit ''frame1'', lit ''frame2''],
      l_audioBuffers = [audioBufferToWav demo_clip],
      l_numFrames = Fin 3,
      l_triggers = [\<lparr>frame = Fin 1, audio = Fin 0\<rparr>],
      l_loop = False\<rparr>"

text \<open>A player that holds this container and is playing, at a given frame.\<close>

definition demo_playing :: "nat \<Rightarrow> (jstring, byte list) player" where
  "demo_playing i =
     (new_player (Some demo_loaded))\<lparr>isPlaying := True, currentFrame := Fin (of_nat i)\<rparr>"

text \<open>An authoring session without images, and the container without frames that the
  player holds after loading what the encoder writes for it.\<close>

definition no_frames_session :: authoring where
  "no_frames_session =
     \<lparr>g_images = [], g_audioFiles = [], g_triggers = [], g_frameRate = Fin 10\<rparr>"

definition no_frames :: "(jstring, byte list) loaded" where
  "no_frames =
     \<lparr>l_frames = [], l_audioBuffers = [], l_numFrames = Fin 0, l_triggers = [],
      l_loop = True\<rparr>"

text \<open>A number lies in the range of a clamped sample.\<close>

fun in_unit_range :: "jsnum \<Rightarrow> bool" where
  "in_unit_range (Fin q) = (- 1 \<le> q \<and> q \<le> 1)"
| "in_unit_range x = False"

section \<open>Reading a buffer that was cut or extended\<close>

lemma getUint32_take:
  "getUint32 (take k buf) off = (if off + 4 \<le> k then getUint32 buf off else Inl RangeError)"
  by (auto simp: getUint32_def)

lemma Uint8Array_take:
  "Uint8Array (take k buf) off len = (if off + len \<le> k then Uint8Array buf off len else Inl RangeError)"
  by (auto simp: Uint8Array_def drop_take min_def)

lemma getUint32_append:
  "off + 4 \<le> length buf \<Longrightarrow> getUint32 (buf @ ex) off = getUint32 buf off"
  by (simp add: getUint32_def nth_append)

lemma Uint8Array_append:
  "off + len \<le> length buf \<Longrightarrow> Uint8Array (buf @ ex) off len = Uint8Array buf off len"
  by (simp add: Uint8Array_def)

lemma getUint32_Inr: "getUint32 buf off = Inr n \<Longrightarrow> off + 4 \<le> length buf"
  by (auto simp: getUint32_def split: if_splits)

lemma Uint8Array_Inr: "Uint8Array buf off len = Inr bs \<Longrightarrow> off + len \<le> length buf"
  by (auto simp: Uint8Array_def split: if_splits)

lemma read_sections_append:
  "read_sections buf n i off acc = Inr r \<Longrightarrow> read_sections (buf @ ex) n i off acc = Inr r"
proof (induction buf n i off acc rule: read_sections.induct)
  case (1 buf n i off acc)
  show ?case
  proof (cases "js_lt i n")
    case False
    with "1.prems" show ?thesis by (simp add: read_sections.simps [of _ n i off acc])
  next
    case True
    from True "1.prems" obtain len where len: "getUint32 buf off = Inr len"
      by (auto simp: read_sections.simps [of buf n i off acc] split: sum.splits)
    from True "1.prems" len obtain bs where bs: "Uint8Array buf (off + 4) len = Inr bs"
      by (auto simp: read_sections.simps [of buf n i off acc] split: sum.splits)
    from True "1.prems" len bs
    have rec: "read_sections buf n (i + 1) (off + 4 + len) (acc @ [bs]) = Inr r"
      by (simp add: read_sections.simps [of buf n i off acc])
    have "read_sections (buf @ ex) n (i + 1) (off + 4 + len) (acc @ [bs]) = Inr r"
      by (rule "1.IH" [OF True len bs rec])
    moreover have "getUint32 (buf @ ex) off = Inr len"
      using len getUint32_append [OF getUint32_Inr [OF len]] by simp
    moreover have "Uint8Array (buf @ ex) (off + 4) len = Inr bs"
      using bs Uint8Array_append [OF Uint8Array_Inr [OF bs]] by simp
    ultimately show ?thesis using True
      by (simp add: read_sections.simps [of "buf @ ex" n i off acc])
  qed
qed

lemma read_sections_take:
  "read_sections buf n i off acc = Inr r \<Longrightarrow>
   read_sections (take k buf) n i off acc = Inr r \<or>
   read_sections (take k buf) n i off acc = Inl RangeError"
proof (induction buf n i off acc rule: read_sections.induct)
  case (1 buf n i off acc)
  show ?case
  proof (cases "js_lt i n")
    case False
    with "1.prems" show ?thesis by (simp add: read_sections.simps [of _ n i off acc])
  next
    case True
    from True "1.prems" obtain len where len: "getUint32 buf off = Inr len"
      by (auto simp: read_sections.simps [of buf n i off acc] split: sum.splits)
    from True "1.prems" len obtain bs where bs: "Uint8Array buf (off + 4) len = Inr bs"
      by (auto simp: read_sections.simps [of buf n i off acc] split: sum.splits)
    from True "1.prems" len bs
    have rec: "read_sections buf n (i + 1) (off + 4 + len) (acc @ [bs]) = Inr r"
      by (simp add: read_sections.simps [of buf n i off acc])
    note ih = "1.IH" [OF True len bs rec]
    show ?thesis
      using ih True len bs
      by (simp add: read_sections.simps [of "take k buf" n i off acc] getUint32_take Uint8Array_take)
  qed
qed

lemma read_frames_take:
  "read_frames buf n off = Inr r \<Longrightarrow>
   read_frames (take k buf) n off = Inr r \<or> read_frames (take k buf) n off = Inl RangeError"
proof -
  assume a: "read_frames buf n off = Inr r"
  then obtain r0 where r0: "read_sections buf n 0 off [] = Inr r0"
    by (auto simp: read_frames_def split: sum.splits)
  from read_sections_take [OF r0, of k] a r0 show ?thesis
    by (auto simp: read_frames_def)
qed

lemma read_frames_append:
  "read_frames buf n off = Inr r \<Longrightarrow> read_frames (buf @ ex) n off = Inr r"
proof -
  assume a: "read_frames buf n off = Inr r"
  then obtain r0 where r0: "read_sections buf n 0 off [] = Inr r0"
    by (auto simp: read_frames_def split: sum.splits)
  from read_sections_append [OF r0, of ex] a r0 show ?thesis
    by (auto simp: read_frames_def)
qed

lemma parse_container_InrE:
  assumes "parse_container h buf = Inr c"
  obtains m headerLen hb hdr version audioFormat numFrames frameData off1
          numAudioClips audioData off2 triggerLen tb trg
  where "Uint8Array buf 0 4 = Inr m" "TextDecoder_decode m = lit ''AGIF''"
    "getUint32 buf 4 = Inr headerLen" "Uint8Array buf 8 headerLen = Inr hb"
    "JSON_parse h (TextDecoder_decode hb) = Some hdr"
    "get_prop hdr (lit ''version'') = Inr version"
    "get_prop hdr (lit ''audioFormat'') = Inr audioFormat"
    "version = JStr (lit ''1.0'')" "audioFormat = JStr (lit ''wav'')"
    "get_prop hdr (lit ''numFrames'') = Inr numFrames"
    "read_frames buf (to_number h numFrames) (8 + headerLen) = Inr (frameData, off1)"
    "get_prop hdr (lit ''numAudioClips'') = Inr numAudioClips"
    "read_audio buf (to_number h numAudioClips) off1 = Inr (audioData, off2)"
    "getUint32 buf off2 = Inr triggerLen" "Uint8Array buf (off2 + 4) triggerLen = Inr tb"
    "JSON_parse h (TextDecoder_decode tb) = Some trg"
    "off2 + 4 + triggerLen = length buf"
    "c = \<lparr>c_header = hdr, c_frameData = frameData, c_audioData = audioData, c_triggers = trg\<rparr>"
  using assms unfolding parse_container_def
  by (auto split: sum.splits option.splits if_splits prod.splits)

lemma parse_container_take:
  assumes ok: "parse_container h buf = Inr c" and k: "k < length buf"
  shows "parse_container h (take k buf) = Inl RangeError"
proof -
  from ok obtain m headerLen hb hdr version audioFormat numFrames frameData off1
          numAudioClips audioData off2 triggerLen tb trg
  where f: "Uint8Array buf 0 4 = Inr m" "TextDecoder_decode m = lit ''AGIF''"
    "getUint32 buf 4 = Inr headerLen" "Uint8Array buf 8 headerLen = Inr hb"
    "JSON_parse h (TextDecoder_decode hb) = Some hdr"
    "get_prop hdr (lit ''version'') = Inr version"
    "get_prop hdr (lit ''audioFormat'') = Inr audioFormat"
    "version = JStr (lit ''1.0'')" "audioFormat = JStr (lit ''wav'')"
    "get_prop hdr (lit ''numFrames'') = Inr numFrames"
    and rf: "read_frames buf (to_number h numFrames) (8 + headerLen) = Inr (frameData, off1)"
    and g: "get_prop hdr (lit ''numAudioClips'') = Inr numAudioClips"
    and ra: "read_audio buf (to_number h numAudioClips) off1 = Inr (audioData, off2)"
    and t: "getUint32 buf off2 = Inr triggerLen" "Uint8Array buf (off2 + 4) triggerLen = Inr tb"
    "JSON_parse h (TextDecoder_decode tb) = Some trg"
    and eof: "off2 + 4 + triggerLen = length buf"
    by (rule parse_container_InrE)
  from read_frames_take [OF rf, of k]
  have rf': "read_frames (take k buf) (to_number h numFrames) (8 + headerLen) = Inr (frameData, off1)
     \<or> read_frames (take k buf) (to_number h numFrames) (8 + headerLen) = Inl RangeError" .
  from read_sections_take [OF ra [unfolded read_audio_def], of k]
  have ra': "read_audio (take k buf) (to_number h numAudioClips) off1 = Inr (audioData, off2)
     \<or> read_audio (take k buf) (to_number h numAudioClips) off1 = Inl RangeError"
    by (simp add: read_audio_def)
  have last: "\<not> off2 + 4 + triggerLen \<le> k" using eof k by simp
  show ?thesis
    unfolding parse_container_def
    using f g t rf' ra' last
    by (auto simp: getUint32_take Uint8Array_take)
qed

lemma parse_container_append:
  assumes ok: "parse_container h buf = Inr c" and ex: "ex \<noteq> []"
  shows "parse_container h (buf @ ex) = Inl (ExtraBytes (int (length ex)))"
proof -
  from ok obtain m headerLen hb hdr version audioFormat numFrames frameData off1
          numAudioClips audioData off2 triggerLen tb trg
  where f: "Uint8Array buf 0 4 = Inr m" "TextDecoder_decode m = lit ''AGIF''"
    "getUint32 buf 4 = Inr headerLen" "Uint8Array buf 8 headerLen = Inr hb"
    "JSON_parse h (TextDecoder_decode hb) = Some hdr"
    "get_prop hdr (lit ''version'') = Inr version"
    "get_prop hdr (lit ''audioFormat'') = Inr audioFormat"
    "version = JStr (lit ''1.0'')" "audioFormat = JStr (lit ''wav'')"
    "get_prop hdr (lit ''numFrames'') = Inr numFrames"
    and rf: "read_frames buf (to_number h numFrames) (8 + headerLen) = Inr (frameData, off1)"
    and g: "get_prop hdr (lit ''numAudioClips'') = Inr numAudioClips"
    and ra: "read_audio buf (to_number h numAudioClips) off1 = Inr (audioData, off2)"
    and t: "getUint32 buf off2 = Inr triggerLen" "Uint8Array buf (off2 + 4) triggerLen = Inr tb"
    "JSON_parse h (TextDecoder_decode tb) = Some trg"
    and eof: "off2 + 4 + triggerLen = length buf"
    by (rule parse_container_InrE)
  note rf' = read_frames_append [OF rf, of ex]
  have ra': "read_audio (buf @ ex) (to_number h numAudioClips) off1 = Inr (audioData, off2)"
    using read_sections_append [OF ra [unfolded read_audio_def], of ex]
    by (simp add: read_audio_def)
  have a: "Uint8Array (buf @ ex) 0 4 = Inr m" "getUint32 (buf @ ex) 4 = Inr headerLen"
    "Uint8Array (buf @ ex) 8 headerLen = Inr hb" "getUint32 (buf @ ex) off2 = Inr triggerLen"
    "Uint8Array (buf @ ex) (off2 + 4) triggerLen = Inr tb"
    using f t getUint32_append Uint8Array_append getUint32_Inr Uint8Array_Inr by metis+
  show ?thesis
    unfolding parse_container_def
    using f g t rf' ra' a eof ex
    by auto
qed

section \<open>Text that is ASCII\<close>

lemma utf8_decode_ascii:
  "list_all (\<lambda>c. c < 128) s \<Longrightarrow>
   utf8_decode 0 0 0x80 0xBF (map unat (concat (map utf8_encode_cp s))) = s"
proof (induction s)
  case Nil
  show ?case by simp
next
  case (Cons c s)
  then have c: "c < 128" and s: "list_all (\<lambda>c. c < 128) s" by simp_all
  from c have u: "unat (of_nat c :: byte) = c" by (simp add: unat_of_nat)
  show ?case using c u Cons.IH [OF s] by simp
qed

lemma TextDecoder_encode_ascii:
  assumes "is_ascii s"
  shows "TextDecoder_decode (TextEncoder_encode s) = s"
proof -
  have raw: "utf8_decode 0 0 0x80 0xBF (map unat (TextEncoder_encode s)) = s"
    using assms utf8_decode_ascii by (simp add: is_ascii_def TextEncoder_encode_def)
  show ?thesis
  proof (cases s)
    case Nil
    with raw show ?thesis by (simp add: TextDecoder_decode_def)
  next
    case (Cons c cs)
    with assms have "c < 128" by (simp add: is_ascii_def)
    with raw Cons show ?thesis by (simp add: TextDecoder_decode_def)
  qed
qed

lemma length_encode_ascii: "is_ascii s \<Longrightarrow> length (TextEncoder_encode s) = length s"
  by (induction s) (simp_all add: is_ascii_def TextEncoder_encode_def)

lemma lit_AGIF: "lit ''AGIF'' = [65, 71, 73, 70]"
  by (simp add: lit_def)

section \<open>What the decoder makes of four bytes\<close>

lemma utf8_decode_bad:
  "need \<noteq> 0 \<Longrightarrow> \<not> (lo \<le> b \<and> b \<le> hi) \<Longrightarrow>
   utf8_decode cp need lo hi (b # bs) = 0xFFFD # utf8_decode 0 0 0x80 0xBF (b # bs)"
  by (cases "lo \<le> b"; cases "b \<le> hi") simp_all

lemma utf8_decode_last:
  "lo \<le> b \<Longrightarrow> b \<le> hi \<Longrightarrow>
   utf8_decode cp (Suc 0) lo hi (b # bs) = (cp * 64 + b mod 64) # utf8_decode 0 0 0x80 0xBF bs"
  by simp

lemma utf8_decode_more:
  "lo \<le> b \<Longrightarrow> b \<le> hi \<Longrightarrow>
   utf8_decode cp (Suc (Suc k)) lo hi (b # bs) = utf8_decode (cp * 64 + b mod 64) (Suc k) 0x80 0xBF bs"
  by simp

lemma utf8_decode_pending:
  "need \<noteq> 0 \<Longrightarrow> 128 \<le> (cp * 64 + lo mod 64) * 64 ^ (need - 1) \<Longrightarrow> 128 \<le> lo \<Longrightarrow> hi \<le> 191 \<Longrightarrow>
   \<exists>c cs. utf8_decode cp need lo hi bs = c # cs \<and> 128 \<le> c"
proof (induction bs arbitrary: cp need lo hi)
  case Nil
  then show ?case by simp
next
  case (Cons b bs)
  show ?case
  proof (cases "lo \<le> b \<and> b \<le> hi")
    case False
    from utf8_decode_bad [OF Cons.prems(1) False] show ?thesis by simp
  next
    case True
    with Cons.prems have b: "128 \<le> b" "b \<le> 191" by simp_all
    from b True Cons.prems have m: "lo mod 64 \<le> b mod 64"
      by (simp add: mod_if) presburger
    show ?thesis
    proof (cases "need = 1")
      case True
      with Cons.prems m have "128 \<le> cp * 64 + b mod 64" by simp
      with True \<open>lo \<le> b \<and> b \<le> hi\<close> utf8_decode_last [of lo b hi cp bs] show ?thesis by simp
    next
      case False
      with Cons.prems obtain k where k: "need = Suc (Suc k)" by (cases need; cases "need - 1") auto
      let ?A = "cp * 64 + lo mod 64" and ?B = "cp * 64 + b mod 64"
      have "?A * 64 ^ Suc k \<le> ?B * 64 ^ Suc k"
        using m by (intro mult_le_mono1) simp
      moreover have "128 \<le> ?A * 64 ^ Suc k" using Cons.prems(2) k by simp
      ultimately have "128 \<le> ?B * 64 ^ Suc k" by (rule_tac order_trans)
      moreover have "(?B * 64 + 128 mod 64) * 64 ^ (Suc k - 1) = ?B * 64 ^ Suc k"
        by (simp add: algebra_simps)
      ultimately have "128 \<le> (?B * 64 + 128 mod 64) * 64 ^ (Suc k - 1)"
        by (simp only:)
      from Cons.IH [of "Suc k" ?B 128 191, OF _ this]
      obtain c cs where "utf8_decode ?B (Suc k) 128 191 bs = c # cs" "128 \<le> c"
        by auto
      with k True utf8_decode_more [of lo b hi cp k bs] show ?thesis by simp
    qed
  qed
qed


lemma utf8_decode_ascii_out:
  "utf8_decode 0 0 0x80 0xBF bs = out \<Longrightarrow> list_all (\<lambda>c. c < 128) out \<Longrightarrow> out = bs"
proof (induction bs arbitrary: out)
  case Nil
  then show ?case by simp
next
  case (Cons b bs)
  consider (a) "b < 128" | (l2) "194 \<le> b \<and> b \<le> 223" | (l3) "224 \<le> b \<and> b \<le> 239"
    | (l4) "240 \<le> b \<and> b \<le> 244" | (bad) "(128 \<le> b \<and> b < 194) \<or> 244 < b" by linarith
  then show ?case
  proof cases
    case a
    with Cons.prems obtain out' where o: "out = b # out'" "utf8_decode 0 0 0x80 0xBF bs = out'"
      by auto
    with Cons.prems have "list_all (\<lambda>c. c < 128) out'" by simp
    from Cons.IH [OF o(2) this] o show ?thesis by simp
  next
    case l2
    then have "2 \<le> b mod 32" by presburger
    then have "128 \<le> (b mod 32 * 64 + 128 mod 64) * 64 ^ (1 - 1)" by simp
    from utf8_decode_pending [of 1 "b mod 32" 128 191 bs, OF _ this]
    obtain c cs where "utf8_decode (b mod 32) 1 128 191 bs = c # cs" "128 \<le> c" by auto
    with l2 Cons.prems show ?thesis by auto
  next
    case l3
    have "b = 224 \<or> 1 \<le> b mod 16" using l3 by presburger
    then have "128 \<le> (b mod 16 * 64 + (if b = 224 then 160 else 128) mod 64) * 64 ^ (2 - 1)"
      by auto
    from utf8_decode_pending [of 2 "b mod 16" "if b = 224 then 160 else 128"
        "if b = 237 then 159 else 191" bs, OF _ this]
    have "\<exists>c cs. utf8_decode (b mod 16) 2 (if b = 224 then 160 else 128)
        (if b = 237 then 159 else 191) bs = c # cs \<and> 128 \<le> c" by simp
    then obtain c cs where "utf8_decode (b mod 16) 2 (if b = 224 then 160 else 128)
        (if b = 237 then 159 else 191) bs = c # cs" "128 \<le> c" by auto
    with l3 Cons.prems show ?thesis by auto
  next
    case l4
    have "b = 240 \<or> 1 \<le> b mod 8" using l4 by presburger
    then have "128 \<le> (b mod 8 * 64 + (if b = 240 then 144 else 128) mod 64) * 64 ^ (3 - 1)"
      by auto
    from utf8_decode_pending [of 3 "b mod 8" "if b = 240 then 144 else 128"
        "if b = 244 then 143 else 191" bs, OF _ this]
    have "\<exists>c cs. utf8_decode (b mod 8) 3 (if b = 240 then 144 else 128)
        (if b = 244 then 143 else 191) bs = c # cs \<and> 128 \<le> c" by simp
    then obtain c cs where "utf8_decode (b mod 8) 3 (if b = 240 then 144 else 128)
        (if b = 244 then 143 else 191) bs = c # cs" "128 \<le> c" by auto
    with l4 Cons.prems show ?thesis by auto
  next
    case bad
    with Cons.prems show ?thesis by auto
  qed
qed


lemma length_utf8_decode:
  "length (utf8_decode cp need lo hi bs) \<le> length bs + (if need = 0 then 0 else 1)"
proof (induction bs arbitrary: cp need lo hi)
  case Nil
  show ?case by simp
next
  case (Cons b bs)
  have ih0: "length (utf8_decode 0 0 128 191 bs) \<le> length bs"
    using Cons.IH [of 0 0 128 191] by simp
  have ih: "\<And>cp need lo hi. length (utf8_decode cp need lo hi bs) \<le> Suc (length bs)"
  proof -
    fix cp need lo hi
    have "length (utf8_decode cp need lo hi bs) \<le> length bs + (if need = 0 then 0 else 1)"
      by (rule Cons.IH)
    also have "\<dots> \<le> Suc (length bs)" by simp
    finally show "length (utf8_decode cp need lo hi bs) \<le> Suc (length bs)" .
  qed
  have start: "length (utf8_decode 0 0 128 191 (b # bs)) \<le> Suc (length bs)"
    using ih0 ih by simp
  show ?case
  proof (cases "need = 0")
    case True
    then have "utf8_decode cp need lo hi (b # bs) = utf8_decode 0 0 128 191 (b # bs)" by simp
    with start True show ?thesis by simp
  next
    case False
    show ?thesis
    proof (cases "lo \<le> b \<and> b \<le> hi")
      case bad: False
      from utf8_decode_bad [OF False bad] start False show ?thesis by simp
    next
      case True
      with False ih0 ih [of "cp * 64 + b mod 64" "need - 1" 128 191] show ?thesis by simp
    qed
  qed
qed

lemma magic_bytes:
  assumes len: "length m = 4" and dec: "TextDecoder_decode m = lit ''AGIF''"
  shows "m = [0x41, 0x47, 0x49, 0x46]"
proof -
  let ?raw = "utf8_decode 0 0 0x80 0xBF (map unat m)"
  have l: "length ?raw \<le> 4" using length_utf8_decode [of 0 0 128 191 "map unat m"] len by simp
  have "?raw = [65, 71, 73, 70]"
  proof (cases ?raw)
    case Nil
    with dec show ?thesis by (simp add: TextDecoder_decode_def lit_AGIF)
  next
    case (Cons c cs)
    show ?thesis
    proof (cases "c = 0xFEFF")
      case True
      with Cons dec have "cs = [65, 71, 73, 70]" by (simp add: TextDecoder_decode_def lit_AGIF)
      with Cons l show ?thesis by simp
    next
      case False
      with Cons dec show ?thesis by (simp add: TextDecoder_decode_def lit_AGIF)
    qed
  qed
  from utf8_decode_ascii_out [OF this] have "map unat m = [65, 71, 73, 70]" by simp
  then have "map (word_of_nat :: nat \<Rightarrow> byte) (map unat m) = map word_of_nat [65, 71, 73, 70]" by simp
  then show ?thesis by (simp add: comp_def)
qed

section \<open>Reading back length-prefixed sections\<close>

lemma length_setUint32 [simp]: "length (setUint32 n) = 4"
  by (simp add: setUint32_def)

lemma u32_split:
  assumes "n < 4294967296"
  shows "n mod 256 + 256 * (n div 256 mod 256) + 65536 * (n div 65536 mod 256)
     + 16777216 * (n div 16777216 mod 256) = (n::nat)"
proof -
  define a where "a = n div 256"
  define b where "b = a div 256"
  define c where "c = b div 256"
  have b: "n div 65536 = b" unfolding b_def a_def by (simp add: div_mult2_eq [symmetric])
  have c: "n div 16777216 = c" unfolding c_def b_def a_def by (simp add: div_mult2_eq [symmetric])
  have "c < 256" using assms c by (simp add: less_mult_imp_div_less)
  then have c': "c mod 256 = c" by simp
  have 1: "n = n mod 256 + 256 * a" unfolding a_def by simp
  have 2: "a = a mod 256 + 256 * b" unfolding b_def by simp
  have 3: "b = b mod 256 + 256 * c" unfolding c_def by simp
  have "n mod 256 + 256 * (a mod 256) + 65536 * (b mod 256) + 16777216 * c = n"
    using 1 2 3 by linarith
  then show ?thesis using b c c' a_def by simp
qed

lemma unat_byte: "unat (word_of_nat k :: byte) = k mod 256"
  by (simp add: unat_of_nat)

lemma getUint32_setUint32:
  assumes "n < 4294967296"
  shows "getUint32 (pre @ setUint32 n @ post) (length pre) = Inr n"
proof -
  have "getUint32 (pre @ setUint32 n @ post) (length pre) =
    Inr (n mod 256 + 256 * (n div 256 mod 256) + 65536 * (n div 65536 mod 256)
     + 16777216 * (n div 16777216 mod 256))"
    by (simp add: getUint32_def setUint32_def nth_append unat_byte)
  then show ?thesis using u32_split [OF assms] by (simp only:)
qed

lemma Uint8Array_mid:
  "Uint8Array (pre @ bs @ post) (length pre) (length bs) = Inr bs"
  by (simp add: Uint8Array_def)

lemma length_with_length [simp]: "length (with_length bs) = 4 + length bs"
  by (simp add: with_length_def)

lemma read_sections_concat:
  "\<forall>b\<in>set secs. length b < 4294967296 \<Longrightarrow>
   read_sections (pre @ concat (map with_length secs) @ post)
      (Fin (of_nat (i + length secs))) i (length pre) acc
   = Inr (acc @ secs, length pre + length (concat (map with_length secs)))"
proof (induction secs arbitrary: pre i acc)
  case Nil
  show ?case by (simp add: read_sections.simps [of _ _ i])
next
  case (Cons b bs)
  let ?buf = "pre @ concat (map with_length (b # bs)) @ post"
  let ?n = "Fin (of_nat (i + length (b # bs)))"
  have lt: "js_lt i ?n" by simp
  have buf1: "?buf = pre @ setUint32 (length b) @ (b @ concat (map with_length bs) @ post)"
    by (simp add: with_length_def)
  have len: "getUint32 ?buf (length pre) = Inr (length b)"
    unfolding buf1 using Cons.prems by (intro getUint32_setUint32) simp
  have buf2: "?buf = (pre @ setUint32 (length b)) @ b @ (concat (map with_length bs) @ post)"
    by (simp add: with_length_def)
  have bs: "Uint8Array ?buf (length pre + 4) (length b) = Inr b"
    unfolding buf2 using Uint8Array_mid [of "pre @ setUint32 (length b)" b] by simp
  have buf3: "?buf = (pre @ with_length b) @ concat (map with_length bs) @ post"
    by simp
  have ih: "read_sections ?buf (Fin (of_nat (Suc i + length bs))) (Suc i)
              (length (pre @ with_length b)) (acc @ [b])
            = Inr ((acc @ [b]) @ bs, length (pre @ with_length b) + length (concat (map with_length bs)))"
    unfolding buf3 using Cons.prems by (intro Cons.IH) simp
  have "read_sections ?buf ?n i (length pre) acc
        = read_sections ?buf ?n (i + 1) (length pre + 4 + length b) (acc @ [b])"
    using lt len bs by (subst read_sections.simps) simp
  also have "\<dots> = Inr (acc @ b # bs, length pre + length (concat (map with_length (b # bs))))"
    using ih by (simp add: add.assoc)
  finally show ?case .
qed

lemma lit_eq_iff [simp]:
  "lit a = lit b \<longleftrightarrow> a = b"
  by (simp add: lit_def inj_map_eq_map inj_on_def)

lemma get_prop_header:
  "get_prop (header_of st) (lit ''version'') = Inr (JStr (lit ''1.0''))"
  "get_prop (header_of st) (lit ''audioFormat'') = Inr (JStr (lit ''wav''))"
  "get_prop (header_of st) (lit ''numFrames'') = Inr (nat_num (length (g_images st)))"
  "get_prop (header_of st) (lit ''numAudioClips'') = Inr (nat_num (length (g_audioFiles st)))"
  by (simp_all add: header_of_def)

lemma get_prop_triggerMap:
  "get_prop (triggerMap_of st) (lit ''frame_triggers'') = Inr (JArr (map trigger_json (g_triggers st)))"
  "get_prop (triggerMap_of st) (lit ''loop'') = Inr (JBool True)"
  by (simp_all add: triggerMap_of_def)

lemma to_number_nat_num [simp]: "to_number h (nat_num n) = Fin (of_nat n)"
  by (simp add: nat_num_def)

lemma encode_AGIF: "TextEncoder_encode (lit ''AGIF'') = [0x41, 0x47, 0x49, 0x46]"
  by (simp add: TextEncoder_encode_def lit_def)

lemma is_ascii_AGIF: "is_ascii (lit ''AGIF'')"
  by (simp add: is_ascii_def lit_def)

lemma parse_container_createAudiGIF:
  assumes hdr: "reads_back h (header_of st)"
    and trg: "reads_back h (triggerMap_of st)"
    and img: "\<forall>f\<in>set (g_images st). is_ascii f \<and> length f < 4294967296"
    and aud: "\<forall>b\<in>set (g_audioFiles st). length (audioBufferToWav b) < 4294967296"
  shows "parse_container h (createAudiGIF h st) =
     Inr \<lparr>c_header = header_of st,
          c_frameData = map (\<lambda>f. lit ''data:image/png;base64,'' @ f) (g_images st),
          c_audioData = map audioBufferToWav (g_audioFiles st),
          c_triggers = triggerMap_of st\<rparr>"
proof -
  define hs where "hs = JSON_stringify h (header_of st)"
  define ts where "ts = JSON_stringify h (triggerMap_of st)"
  define hb where "hb = TextEncoder_encode hs"
  define tb where "tb = TextEncoder_encode ts"
  define fsecs where "fsecs = map TextEncoder_encode (g_images st)"
  define asecs where "asecs = map audioBufferToWav (g_audioFiles st)"
  define F where "F = concat (map with_length fsecs)"
  define A where "A = concat (map with_length asecs)"
  define m where "m = TextEncoder_encode (lit ''AGIF'')"
  define buf where "buf = createAudiGIF h st"
  have buf: "buf = m @ setUint32 (length hb) @ hb @ F @ A @ setUint32 (length tb) @ tb"
    by (simp add: buf_def createAudiGIF_def Let_def m_def hb_def hs_def tb_def ts_def
        F_def A_def fsecs_def asecs_def)
  have lm: "length m = 4" by (simp add: m_def encode_AGIF)
  have hs: "is_ascii hs" "length hs < 4294967296" "JSON_parse h hs = Some (header_of st)"
    using hdr by (simp_all add: reads_back_def hs_def)
  have ts: "is_ascii ts" "length ts < 4294967296" "JSON_parse h ts = Some (triggerMap_of st)"
    using trg by (simp_all add: reads_back_def ts_def)
  have lhb: "length hb < 4294967296" using hs by (simp add: hb_def length_encode_ascii)
  have ltb: "length tb < 4294967296" using ts by (simp add: tb_def length_encode_ascii)
  have dhb: "TextDecoder_decode hb = hs" using hs by (simp add: hb_def TextDecoder_encode_ascii)
  have dtb: "TextDecoder_decode tb = ts" using ts by (simp add: tb_def TextDecoder_encode_ascii)
  have s1: "Uint8Array buf 0 4 = Inr m"
    using Uint8Array_mid [of "[]" m] lm by (simp add: buf)
  have s2: "TextDecoder_decode m = lit ''AGIF''"
    by (simp add: m_def TextDecoder_encode_ascii is_ascii_AGIF)
  have s3: "getUint32 buf 4 = Inr (length hb)"
    using getUint32_setUint32 [OF lhb, of m] lm by (simp add: buf)
  have s4: "Uint8Array buf 8 (length hb) = Inr hb"
    using Uint8Array_mid [of "m @ setUint32 (length hb)" hb] lm by (simp add: buf)
  have fl: "\<forall>b\<in>set fsecs. length b < 4294967296"
    using img by (auto simp: fsecs_def length_encode_ascii)
  have s5: "read_sections buf (Fin (of_nat (length (g_images st)))) 0 (8 + length hb) []
            = Inr (fsecs, 8 + length hb + length F)"
    using read_sections_concat [OF fl, of "m @ setUint32 (length hb) @ hb" "A @ setUint32 (length tb) @ tb" 0 "[]"] lm
    by (simp add: buf F_def fsecs_def)
  have s5': "read_frames buf (Fin (of_nat (length (g_images st)))) (8 + length hb)
            = Inr (map (\<lambda>f. lit ''data:image/png;base64,'' @ f) (g_images st), 8 + length hb + length F)"
    using img by (auto simp: read_frames_def s5 fsecs_def TextDecoder_encode_ascii)
  have al: "\<forall>b\<in>set asecs. length b < 4294967296"
    using aud by (auto simp: asecs_def)
  define off2 where "off2 = 8 + length hb + length F + length A"
  have s6: "read_audio buf (Fin (of_nat (length (g_audioFiles st)))) (8 + length hb + length F)
            = Inr (asecs, off2)"
    using read_sections_concat [OF al, of "m @ setUint32 (length hb) @ hb @ F" "setUint32 (length tb) @ tb" 0 "[]"] lm
    by (simp add: buf A_def asecs_def read_audio_def add.assoc off2_def)
  have s7: "getUint32 buf off2 = Inr (length tb)"
    using getUint32_setUint32 [OF ltb, of "m @ setUint32 (length hb) @ hb @ F @ A" tb] lm
    by (simp add: buf add.assoc off2_def)
  have s8: "Uint8Array buf (off2 + 4) (length tb) = Inr tb"
    using Uint8Array_mid [of "m @ setUint32 (length hb) @ hb @ F @ A @ setUint32 (length tb)" tb "[]"] lm
    by (simp add: buf add.assoc add.commute add.left_commute off2_def)
  have s9: "off2 + 4 + length tb = length buf"
    using lm by (simp add: buf off2_def)
  show ?thesis
    unfolding buf_def [symmetric] parse_container_def
    by (simp add: s1 s2 s3 s4 dhb hs get_prop_header s5' s6 s7 s8 s9 dtb ts asecs_def)
qed


section \<open>Running the reference host and decoding what the encoder wrote\<close>

lemma show_nat_digit: "n < 10 \<Longrightarrow> show_nat n = [48 + n]"
  by (simp add: show_nat.simps [of n])

lemma show_nat_more: "10 \<le> n \<Longrightarrow> show_nat n = show_nat (n div 10) @ [48 + n mod 10]"
  by (simp add: show_nat.simps [of n])

lemmas ref_eval = show_nat_digit show_nat_more lit_def is_integer_def quote_def
  is_ws_def is_digit_def skip_ws_def read_nat_def parse_number_def expect_def ref_parse_def
  header_of_def triggerMap_of_def trigger_json_def nat_num_def

lemma ref_host_sel [simp]:
  "JSON_parse ref_host = ref_parse" "JSON_stringify ref_host = ref_stringify"
  "load_image ref_host = Some" "decodeAudioData ref_host = Some"
  by (simp_all add: ref_host_def)

lemma demo_header_text:
  "ref_stringify (header_of demo) =
   lit ''{\"magic\":\"AGIF\",\"version\":\"1.0\",\"width\":300,\"height\":300,\"frameRate\":10,\"audioFormat\":\"wav\",\"numFrames\":2,\"numAudioClips\":1}''"
  by (simp add: ref_eval demo_def)

lemma demo_trigger_text:
  "ref_stringify (triggerMap_of demo) =
   lit ''{\"frame_triggers\":[{\"frame\":1,\"audio\":0}],\"loop\":true}''"
  by (simp add: ref_eval demo_def)

lemma demo_header_reads_back: "reads_back ref_host (header_of demo)"
proof -
  have "ref_parse (ref_stringify (header_of demo)) = Some (header_of demo)"
    unfolding demo_header_text by (simp add: ref_eval demo_def)
  moreover have "is_ascii (ref_stringify (header_of demo))"
    unfolding demo_header_text by (simp add: is_ascii_def lit_def)
  moreover have "length (ref_stringify (header_of demo)) < 4294967296"
    unfolding demo_header_text by (simp add: lit_def)
  ultimately show ?thesis by (simp add: reads_back_def)
qed

lemma demo_trigger_reads_back: "reads_back ref_host (triggerMap_of demo)"
proof -
  have "ref_parse (ref_stringify (triggerMap_of demo)) = Some (triggerMap_of demo)"
    unfolding demo_trigger_text by (simp add: ref_eval demo_def)
  moreover have "is_ascii (ref_stringify (triggerMap_of demo))"
    unfolding demo_trigger_text by (simp add: is_ascii_def lit_def)
  moreover have "length (ref_stringify (triggerMap_of demo)) < 4294967296"
    unfolding demo_trigger_text by (simp add: lit_def)
  ultimately show ?thesis by (simp add: reads_back_def)
qed

lemma demo_images_fit: "\<forall>f\<in>set (g_images demo). is_ascii f \<and> length f < 4294967296"
  by (simp add: demo_def is_ascii_def lit_def)

lemma length_audioBufferToWav:
  "length (audioBufferToWav b) = 44 + 2 * (ab_length b * numberOfChannels b)"
proof -
  have e: "\<And>x. length (encode_sample x) = 2" by (simp add: encode_sample_def setInt16_def Let_def)
  have "\<And>i. length (concat (map (\<lambda>channel. encode_sample (sample_at b channel i))
        [0..<numberOfChannels b])) = 2 * numberOfChannels b"
    by (simp add: length_concat e comp_def sum_list_triv)
  then show ?thesis
    by (simp add: audioBufferToWav_def Let_def writeString_def setUint16_def length_concat
        comp_def sum_list_triv)
qed

lemma demo_audio_fit: "\<forall>b\<in>set (g_audioFiles demo). length (audioBufferToWav b) < 4294967296"
  by (simp add: demo_def demo_clip_def length_audioBufferToWav numberOfChannels_def)

lemma all_loaded_Some: "all_loaded Some xs = Inr xs"
  by (induction xs) simp_all

lemma decode_parse_Inl: "parse_container h buf = Inl e \<Longrightarrow> decode h buf = Inl e"
  by (simp add: decode_def)

lemma decode_InrD: "decode h buf = Inr d \<Longrightarrow> \<exists>c. parse_container h buf = Inr c"
  by (cases "parse_container h buf") (simp_all add: decode_def)

lemma decode_createAudiGIF:
  assumes hdr: "reads_back h (header_of st)"
    and trg: "reads_back h (triggerMap_of st)"
    and img: "\<forall>f\<in>set (g_images st). is_ascii f \<and> length f < 4294967296"
    and aud: "\<forall>b\<in>set (g_audioFiles st). length (audioBufferToWav b) < 4294967296"
    and li: "all_loaded (load_image h)
               (map (\<lambda>f. lit ''data:image/png;base64,'' @ f) (g_images st)) = Inr imgs"
    and la: "all_loaded (decodeAudioData h) (map audioBufferToWav (g_audioFiles st)) = Inr clips"
  shows "decode h (createAudiGIF h st) =
     Inr \<lparr>header = header_of st, frames = imgs, audioBuffers = clips,
          triggers = JArr (map trigger_json (g_triggers st)), loop = True\<rparr>"
  using li la
  by (simp add: decode_def parse_container_createAudiGIF [OF hdr trg img aud] get_prop_triggerMap)

lemma decode_demo:
  "decode ref_host (createAudiGIF ref_host demo) =
     Inr \<lparr>header = header_of demo,
          frames = map (\<lambda>f. lit ''data:image/png;base64,'' @ f) (g_images demo),
          audioBuffers = map audioBufferToWav (g_audioFiles demo),
          triggers = JArr (map trigger_json (g_triggers demo)), loop = True\<rparr>"
  by (rule decode_createAudiGIF [OF demo_header_reads_back demo_trigger_reads_back
        demo_images_fit demo_audio_fit]) (simp_all add: all_loaded_Some)

lemma length_demo: "length (createAudiGIF ref_host demo) = 259"
  by (simp add: createAudiGIF_def Let_def demo_header_text demo_trigger_text
      length_encode_ascii is_ascii_def lit_def with_length_def length_audioBufferToWav)
     (simp add: demo_def demo_clip_def numberOfChannels_def length_encode_ascii is_ascii_def lit_def length_audioBufferToWav)


section \<open>Sixteen-bit samples\<close>

lemma uint_byte: "uint (word_of_int k :: byte) = k mod 256"
  by (simp add: uint_word_of_int)

lemma to_int16_range: "- 32768 \<le> to_int16 x \<and> to_int16 x \<le> 32767"
proof (cases x)
  case (Fin q)
  have "0 \<le> trunc q mod 65536" "trunc q mod 65536 < 65536" by simp_all
  then show ?thesis using Fin by (auto simp: Let_def)
qed simp_all

lemma mod_65536_signed:
  assumes "- 32768 \<le> v" "v \<le> (32767::int)"
  shows "(let u = v mod 65536 in if u \<ge> 32768 then u - 65536 else u) = v"
proof (cases "v < 0")
  case True
  have "(v + 65536) mod 65536 = v + 65536" using assms True by (intro mod_pos_pos_trivial) simp_all
  then have "v mod 65536 = v + 65536" by simp
  with assms True show ?thesis by (simp add: Let_def)
next
  case False
  then have "v mod 65536 = v" using assms by (intro mod_pos_pos_trivial) simp_all
  with assms False show ?thesis by (simp add: Let_def)
qed

lemma getInt16_setInt16: "getInt16 (setInt16 x) = to_int16 x"
proof -
  define v where "v = to_int16 x"
  have r: "- 32768 \<le> v" "v \<le> 32767" using to_int16_range [of x] by (simp_all add: v_def)
  define w where "w = v mod 65536"
  have w: "0 \<le> w" "w < 65536" by (simp_all add: w_def)
  have h: "w div 256 mod 256 = w div 256"
    using w by (intro mod_pos_pos_trivial) (simp_all add: div_less_iff_less_mult pos_imp_zdiv_nonneg_iff)
  have "w mod 256 = v mod 256" by (simp add: w_def mod_mod_cancel)
  then have u: "v mod 256 + 256 * (w div 256) = w"
    using mult_div_mod_eq [of 256 w] by simp
  have "getInt16 (setInt16 x) = (let u = w in if u \<ge> 32768 then u - 65536 else u)"
    by (simp add: getInt16_def setInt16_def uint_byte v_def [symmetric] w_def [symmetric] h u)
  also have "\<dots> = v" unfolding w_def using r by (rule mod_65536_signed)
  finally show ?thesis by (simp add: v_def)
qed

lemma to_int16_small:
  "- 32768 \<le> trunc q \<Longrightarrow> trunc q \<le> 32767 \<Longrightarrow> to_int16 (Fin q) = trunc q"
  using mod_65536_signed [of "trunc q"] by simp

lemma trunc_nonneg: "0 \<le> q \<Longrightarrow> trunc q = \<lfloor>q\<rfloor>"
  by (simp add: trunc_def)

lemma in_unit_range_clamp: "x \<noteq> NaN \<Longrightarrow> in_unit_range (clamp_sample x)"
  by (cases x) (simp_all add: clamp_sample_def)

lemma clamp_Fin_range: "clamp_sample x = Fin q \<Longrightarrow> - 1 \<le> q \<and> q \<le> 1"
  by (cases x) (auto simp: clamp_sample_def)

lemma encode_sample_Fin:
  assumes "clamp_sample x = Fin q"
  shows "getInt16 (encode_sample x) = (if q < 0 then trunc (q * 32768) else trunc (q * 32767))"
proof -
  from clamp_Fin_range [OF assms] have r: "- 1 \<le> q" "q \<le> 1" by simp_all
  show ?thesis
  proof (cases "q < 0")
    case True
    have "0 \<le> - (q * 32768)" "- (q * 32768) \<le> 32768" using True r by simp_all
    then have "0 \<le> \<lfloor>- (q * 32768)\<rfloor>" "\<lfloor>- (q * 32768)\<rfloor> \<le> 32768"
      by (simp_all add: floor_le_iff le_floor_iff)
    moreover have "trunc (q * 32768) = - \<lfloor>- (q * 32768)\<rfloor>"
      using True by (simp add: trunc_def mult_less_0_iff)
    ultimately have "- 32768 \<le> trunc (q * 32768)" "trunc (q * 32768) \<le> 32767"
      by linarith+
    from to_int16_small [OF this] True assms show ?thesis
      by (simp add: encode_sample_def getInt16_setInt16)
  next
    case False
    then have "0 \<le> q * 32767" "q * 32767 \<le> 32767" using r by simp_all
    then have "0 \<le> \<lfloor>q * 32767\<rfloor>" "\<lfloor>q * 32767\<rfloor> \<le> 32767"
      by (simp_all add: floor_le_iff le_floor_iff)
    moreover have "trunc (q * 32767) = \<lfloor>q * 32767\<rfloor>"
      using \<open>0 \<le> q * 32767\<close> by (rule trunc_nonneg)
    ultimately have "- 32768 \<le> trunc (q * 32767)" "trunc (q * 32767) \<le> 32767"
      by linarith+
    from to_int16_small [OF this] False assms show ?thesis
      by (simp add: encode_sample_def getInt16_setInt16)
  qed
qed

lemma encode_sample_one: "encode_sample (Fin 1) = [0xFF, 0x7F]"
  by (simp add: encode_sample_def clamp_sample_def setInt16_def trunc_def)

lemma encode_sample_minus_one: "encode_sample (Fin (- 1)) = [0x00, 0x80]"
  by (simp add: encode_sample_def clamp_sample_def setInt16_def trunc_def)

lemma encode_sample_NaN: "encode_sample NaN = [0, 0]"
  by (simp add: encode_sample_def clamp_sample_def setInt16_def)

lemma length_encode_sample: "length (encode_sample x) = 2"
  by (simp add: encode_sample_def setInt16_def Let_def)


text \<open>Where a sample lies in the bytes of the WAV buffer.\<close>

lemma take_drop_concat_uniform:
  "\<forall>x\<in>set xs. length x = k \<Longrightarrow> j < length xs \<Longrightarrow>
   take k (drop (j * k) (concat xs)) = xs ! j"
proof (induction xs arbitrary: j)
  case Nil
  then show ?case by simp
next
  case (Cons x xs)
  show ?case
  proof (cases j)
    case 0
    with Cons.prems show ?thesis by simp
  next
    case (Suc j')
    with Cons.prems have "take k (drop (j' * k) (concat xs)) = xs ! j'"
      by (intro Cons.IH) simp_all
    with Suc Cons.prems show ?thesis by simp
  qed
qed

lemma length_wav_header:
  "length (writeString ''RIFF'' @ setUint32 a @ writeString ''WAVE'' @ writeString ''fmt '' @
     setUint32 b @ setUint16 c @ setUint16 d @ setUint32 e @ setUint32 f @ setUint16 g @
     setUint16 h @ writeString ''data'' @ setUint32 i) = 44"
  by (simp add: writeString_def setUint16_def)

lemma audioBufferToWav_sample:
  assumes i: "i < ab_length b" and c: "channel < numberOfChannels b"
  shows "take 2 (drop (44 + 2 * (i * numberOfChannels b + channel)) (audioBufferToWav b))
         = encode_sample (sample_at b channel i)"
proof -
  let ?n = "numberOfChannels b"
  define blk where
    "blk = (\<lambda>i. concat (map (\<lambda>channel. encode_sample (sample_at b channel i)) [0..<?n]))"
  define data where "data = concat (map blk [0..<ab_length b])"
  define hdr where "hdr =
     writeString ''RIFF'' @ setUint32 (36 + ab_length b * ?n * 2) @
     writeString ''WAVE'' @ writeString ''fmt '' @ setUint32 16 @ setUint16 1 @
     setUint16 ?n @ setUint32 (sampleRate b) @
     setUint32 (sampleRate b * ?n * 2) @ setUint16 (?n * 2) @
     setUint16 16 @ writeString ''data'' @ setUint32 (ab_length b * ?n * 2)"
  have lh: "length hdr = 44" unfolding hdr_def by (rule length_wav_header)
  have wav: "audioBufferToWav b = hdr @ data"
    by (simp add: audioBufferToWav_def Let_def hdr_def data_def blk_def)
  have lb: "\<And>i. length (blk i) = ?n * 2"
    by (simp add: blk_def length_concat comp_def length_encode_sample sum_list_triv)
  have one: "take 2 (drop (channel * 2) (blk i)) = encode_sample (sample_at b channel i)"
  proof -
    have "take 2 (drop (channel * 2) (blk i))
      = map (\<lambda>channel. encode_sample (sample_at b channel i)) [0..<?n] ! channel"
      unfolding blk_def using c
      by (intro take_drop_concat_uniform) (auto simp: length_encode_sample)
    then show ?thesis using c by simp
  qed
  have row: "take (?n * 2) (drop (i * (?n * 2)) data) = blk i"
  proof -
    have "take (?n * 2) (drop (i * (?n * 2)) data) = map blk [0..<ab_length b] ! i"
      unfolding data_def using i by (intro take_drop_concat_uniform) (auto simp: lb)
    then show ?thesis using i by simp
  qed
  have idx: "44 + 2 * (i * ?n + channel) = 44 + (i * (?n * 2) + channel * 2)"
    by (simp add: algebra_simps)
  have "drop (44 + 2 * (i * ?n + channel)) (audioBufferToWav b)
        = drop (channel * 2) (drop (i * (?n * 2)) data)"
    unfolding idx wav using lh by (simp add: add.commute)
  then have "take 2 (drop (44 + 2 * (i * ?n + channel)) (audioBufferToWav b))
        = take 2 (drop (channel * 2) (drop (i * (?n * 2)) data))" by simp
  also have "\<dots> = take 2 (drop (channel * 2) (take (?n * 2) (drop (i * (?n * 2)) data)))"
    using c by (simp add: drop_take min_def)
  also have "\<dots> = encode_sample (sample_at b channel i)"
    unfolding row by (rule one)
  finally show ?thesis .
qed

lemma clamp_sample_Fin:
  "clamp_sample (Fin q) = Fin (if q < - 1 then - 1 else if 1 < q then 1 else q)"
  by (simp add: clamp_sample_def min_def max_def)

lemma clamp_sample_inf:
  "clamp_sample PosInf = Fin 1" "clamp_sample NegInf = Fin (- 1)" "clamp_sample NaN = NaN"
  by (simp_all add: clamp_sample_def)

lemma trunc_int: "trunc (of_int k) = k"
  by (simp add: trunc_def)

lemma encode_sample_value:
  "getInt16 (encode_sample (Fin q)) =
     (if q < - 1 then - 32768 else if q < 0 then trunc (q * 32768)
      else if q \<le> 1 then trunc (q * 32767) else 32767)"
proof -
  have a: "trunc (- 32768) = - 32768" using trunc_int [of "- 32768"] by simp
  have b: "trunc 32767 = 32767" using trunc_int [of 32767] by simp
  show ?thesis
    using encode_sample_Fin [OF clamp_sample_Fin [of q]] a b by auto
qed

lemma encode_sample_inf:
  "getInt16 (encode_sample PosInf) = 32767" "getInt16 (encode_sample NegInf) = - 32768"
proof -
  have a: "trunc (- 32768) = - 32768" using trunc_int [of "- 32768"] by simp
  have b: "trunc 32767 = 32767" using trunc_int [of 32767] by simp
  show "getInt16 (encode_sample PosInf) = 32767"
    using encode_sample_Fin [OF clamp_sample_inf(1)] b by simp
  show "getInt16 (encode_sample NegInf) = - 32768"
    using encode_sample_Fin [OF clamp_sample_inf(2)] a by simp
qed

lemma byte_of_int_mod: "(word_of_int (k mod 256) :: byte) = word_of_int k"
  by (simp add: word_eq_iff_unsigned [where ?'a = int] uint_word_of_int)

lemma encode_sample_bytes:
  "encode_sample x =
     [word_of_int (getInt16 (encode_sample x)),
      word_of_int (getInt16 (encode_sample x) div 256)]"
proof -
  define y where "y = (let s = clamp_sample x in
     if js_negative s then js_scale s 0x8000 else js_scale s 0x7fff)"
  define v where "v = to_int16 y"
  have e: "encode_sample x = setInt16 y" by (simp add: encode_sample_def y_def Let_def)
  have g: "getInt16 (encode_sample x) = v" by (simp add: e getInt16_setInt16 v_def)
  have "v mod 65536 = 256 * (v div 256 mod 256) + v mod 256"
    using zmod_zmult2_eq [of 256 v 256] by simp
  then have "v mod 65536 div 256 = v div 256 mod 256" by simp
  then have "(word_of_int (v mod 65536 div 256) :: byte) = word_of_int (v div 256)"
    by (simp add: byte_of_int_mod)
  then show ?thesis
    unfolding g by (simp add: e setInt16_def v_def [symmetric] byte_of_int_mod)
qed

section \<open>The decoder on malformed buffers\<close>

text \<open>
  Claim C2, as amended.  A buffer of at least four bytes whose first four bytes are not
  the ASCII text AGIF makes \<open>decode\<close> throw the missing-magic error, whatever follows
  them and whatever the host is.  A buffer of fewer than four bytes does not reach the
  comparison: the view of line 9 throws a \<open>RangeError\<close>.
\<close>

theorem decode_bad_magic:
  "(4 \<le> length buf \<and> take 4 buf \<noteq> [0x41, 0x47, 0x49, 0x46]
      \<longrightarrow> decode h buf = Inl MissingMagic)
   \<and> (length buf < 4 \<longrightarrow> decode h buf = Inl RangeError)"
proof (intro conjI impI)
  assume a: "4 \<le> length buf \<and> take 4 buf \<noteq> [0x41, 0x47, 0x49, 0x46]"
  then have v: "Uint8Array buf 0 4 = Inr (take 4 buf)"
    by (simp add: Uint8Array_def)
  have "length (take 4 buf) = 4" using a by simp
  with magic_bytes [of "take 4 buf"] a
  have "TextDecoder_decode (take 4 buf) \<noteq> lit ''AGIF''" by blast
  with v have "parse_container h buf = Inl MissingMagic"
    by (simp add: parse_container_def)
  then show "decode h buf = Inl MissingMagic" by (rule decode_parse_Inl)
next
  assume "length buf < 4"
  then have "parse_container h buf = Inl RangeError"
    by (simp add: parse_container_def Uint8Array_def)
  then show "decode h buf = Inl RangeError" by (rule decode_parse_Inl)
qed

theorem decode_bad_magic_witness:
  "4 \<le> length [0x42, 0x47, 0x49, 0x46, 0x00 :: byte]
   \<and> take 4 [0x42, 0x47, 0x49, 0x46, 0x00 :: byte] \<noteq> [0x41, 0x47, 0x49, 0x46]
   \<and> decode ref_host [0x42, 0x47, 0x49, 0x46, 0x00] = Inl MissingMagic
   \<and> length [0x41, 0x47, 0x49 :: byte] < 4
   \<and> decode ref_host [0x41, 0x47, 0x49] = Inl RangeError"
  using decode_bad_magic [of "[0x42, 0x47, 0x49, 0x46, 0x00]" ref_host]
    decode_bad_magic [of "[0x41, 0x47, 0x49]" ref_host]
  by simp

text \<open>Claim C2 as stated fails on a one-byte buffer: its bytes are not AGIF, and
  \<open>decode\<close> throws a \<open>RangeError\<close>, not the missing-magic error.\<close>

theorem decode_short_buffer_counterexample:
  "take 4 [0x42 :: byte] \<noteq> [0x41, 0x47, 0x49, 0x46]
   \<and> decode ref_host [0x42] = Inl RangeError
   \<and> decode ref_host [0x42] \<noteq> Inl MissingMagic"
  by (simp add: decode_def parse_container_def Uint8Array_def)

text \<open>
  Claim C3.  When \<open>decode\<close> accepts a buffer, it rejects every proper prefix of it with
  the \<open>RangeError\<close> of a view that leaves the buffer (the only failure the program has
  for a truncated section) and so never returns a partial result.  In particular, a round
  of the section loop whose length prefix counts more bytes than the buffer has left
  throws that error.
\<close>

theorem decode_truncated:
  "(decode h buf = Inr d \<and> k < length buf \<longrightarrow> decode h (take k buf) = Inl RangeError)
   \<and> (js_lt i n \<and> getUint32 b off = Inr len \<and> length b < off + 4 + len
        \<longrightarrow> read_sections b n i off acc = Inl RangeError)"
proof (intro conjI impI)
  assume a: "decode h buf = Inr d \<and> k < length buf"
  from decode_InrD [of h buf d] a obtain c where "parse_container h buf = Inr c" by blast
  from parse_container_take [OF this] a show "decode h (take k buf) = Inl RangeError"
    by (intro decode_parse_Inl) simp
next
  assume "js_lt i n \<and> getUint32 b off = Inr len \<and> length b < off + 4 + len"
  then show "read_sections b n i off acc = Inl RangeError"
    by (simp add: read_sections.simps [of b n i off acc] Uint8Array_def)
qed

theorem decode_truncated_witness:
  "decode ref_host (createAudiGIF ref_host demo) =
     Inr \<lparr>header = header_of demo,
          frames = map (\<lambda>f. lit ''data:image/png;base64,'' @ f) (g_images demo),
          audioBuffers = map audioBufferToWav (g_audioFiles demo),
          triggers = JArr (map trigger_json (g_triggers demo)), loop = True\<rparr>
   \<and> 100 < length (createAudiGIF ref_host demo)
   \<and> decode ref_host (take 100 (createAudiGIF ref_host demo)) = Inl RangeError
   \<and> js_lt 0 (Fin 1) \<and> getUint32 [5, 0, 0, 0, 1, 2] 0 = Inr 5
   \<and> length [5, 0, 0, 0, 1, 2 :: byte] < 0 + 4 + 5
   \<and> read_sections [5, 0, 0, 0, 1, 2] (Fin 1) 0 0 [] = Inl RangeError"
proof -
  have k: "100 < length (createAudiGIF ref_host demo)" by (simp add: length_demo)
  have g: "getUint32 [5, 0, 0, 0, 1, 2] 0 = Inr 5" by (simp add: getUint32_def)
  from decode_truncated [of ref_host "createAudiGIF ref_host demo" _ 100 0 "Fin 1"
      "[5, 0, 0, 0, 1, 2]" 0 5 "[]"] decode_demo k g
  show ?thesis by simp
qed

text \<open>
  Claim C4.  When \<open>decode\<close> accepts a buffer, the buffer followed by \<open>N > 0\<close> more
  bytes makes it throw the extra-bytes error of line 63, which reports exactly \<open>N\<close>.
\<close>

theorem decode_trailing:
  assumes "decode h buf = Inr d" and "0 < length extra"
  shows "decode h (buf @ extra) = Inl (ExtraBytes (int (length extra)))"
proof -
  from decode_InrD [OF assms(1)] obtain c where "parse_container h buf = Inr c" ..
  moreover from assms(2) have "extra \<noteq> []" by auto
  ultimately have "parse_container h (buf @ extra) = Inl (ExtraBytes (int (length extra)))"
    by (rule parse_container_append)
  then show ?thesis by (rule decode_parse_Inl)
qed

theorem decode_trailing_witness:
  "decode ref_host (createAudiGIF ref_host demo) =
     Inr \<lparr>header = header_of demo,
          frames = map (\<lambda>f. lit ''data:image/png;base64,'' @ f) (g_images demo),
          audioBuffers = map audioBufferToWav (g_audioFiles demo),
          triggers = JArr (map trigger_json (g_triggers demo)), loop = True\<rparr>
   \<and> 0 < length [7, 7, 7 :: byte]
   \<and> decode ref_host (createAudiGIF ref_host demo @ [7, 7, 7]) = Inl (ExtraBytes 3)"
proof -
  have e: "0 < length [7, 7, 7 :: byte]" by simp
  from decode_trailing [OF decode_demo e] decode_demo show ?thesis by simp
qed


section \<open>Encoding and decoding again\<close>

lemma typed_triggers_json: "typed_triggers (map trigger_json ts) = Some ts"
  by (induction ts) (simp_all add: trigger_json_def)

text \<open>The player's view of a decoded container that the encoder wrote.\<close>

lemma loaded_of_createAudiGIF:
  "loaded_of h \<lparr>header = header_of st, frames = imgs, audioBuffers = clips,
                triggers = JArr (map trigger_json (g_triggers st)), loop = True\<rparr>
   = Some \<lparr>l_frames = imgs, l_audioBuffers = clips,
           l_numFrames = Fin (of_nat (length (g_images st))),
           l_triggers = g_triggers st, l_loop = True\<rparr>"
  by (simp add: loaded_of_def get_prop_header typed_triggers_json)

text \<open>
  Claim C1, as amended.  Take any host and any authoring state (frame rate, base64 text of
  each image, audio buffers, trigger list) such that the host reads back the header and the
  trigger map the encoder builds, the frame texts are ASCII, every section is shorter than
  \<open>2^32\<close> bytes, and the host loads every asset.  Then decoding the encoded container
  gives back the header the encoder built, each frame text (as a data URL), the WAV bytes
  of each clip and the trigger list, and the loop flag \<open>true\<close>.
\<close>

theorem createAudiGIF_roundtrip:
  assumes "reads_back h (header_of st)"
    and "reads_back h (triggerMap_of st)"
    and "\<forall>f\<in>set (g_images st). is_ascii f \<and> length f < 4294967296"
    and "\<forall>b\<in>set (g_audioFiles st). length (audioBufferToWav b) < 4294967296"
    and "all_loaded (load_image h)
           (map (\<lambda>f. lit ''data:image/png;base64,'' @ f) (g_images st)) = Inr imgs"
    and "all_loaded (decodeAudioData h) (map audioBufferToWav (g_audioFiles st)) = Inr clips"
  shows "parse_container h (createAudiGIF h st) =
           Inr \<lparr>c_header = header_of st,
                c_frameData = map (\<lambda>f. lit ''data:image/png;base64,'' @ f) (g_images st),
                c_audioData = map audioBufferToWav (g_audioFiles st),
                c_triggers = triggerMap_of st\<rparr>
         \<and> decode h (createAudiGIF h st) =
           Inr \<lparr>header = header_of st, frames = imgs, audioBuffers = clips,
                triggers = JArr (map trigger_json (g_triggers st)), loop = True\<rparr>
         \<and> typed_triggers (map trigger_json (g_triggers st)) = Some (g_triggers st)"
  using parse_container_createAudiGIF [OF assms(1-4)] decode_createAudiGIF [OF assms]
    typed_triggers_json by simp

theorem createAudiGIF_roundtrip_witness:
  "reads_back ref_host (header_of demo)
   \<and> reads_back ref_host (triggerMap_of demo)
   \<and> list_all (\<lambda>f. is_ascii f \<and> length f < 4294967296) (g_images demo)
   \<and> list_all (\<lambda>b. length (audioBufferToWav b) < 4294967296) (g_audioFiles demo)
   \<and> all_loaded (load_image ref_host)
        (map (\<lambda>f. lit ''data:image/png;base64,'' @ f) (g_images demo))
      = Inr (map (\<lambda>f. lit ''data:image/png;base64,'' @ f) (g_images demo))
   \<and> all_loaded (decodeAudioData ref_host) (map audioBufferToWav (g_audioFiles demo))
      = Inr (map audioBufferToWav (g_audioFiles demo))
   \<and> parse_container ref_host (createAudiGIF ref_host demo) =
           Inr \<lparr>c_header = header_of demo,
                c_frameData = map (\<lambda>f. lit ''data:image/png;base64,'' @ f) (g_images demo),
                c_audioData = map audioBufferToWav (g_audioFiles demo),
                c_triggers = triggerMap_of demo\<rparr>
   \<and> decode ref_host (createAudiGIF ref_host demo) =
           Inr \<lparr>header = header_of demo,
                frames = map (\<lambda>f. lit ''data:image/png;base64,'' @ f) (g_images demo),
                audioBuffers = map audioBufferToWav (g_audioFiles demo),
                triggers = JArr (map trigger_json (g_triggers demo)), loop = True\<rparr>
   \<and> typed_triggers (map trigger_json (g_triggers demo)) = Some (g_triggers demo)"
proof -
  have li: "all_loaded (load_image ref_host)
        (map (\<lambda>f. lit ''data:image/png;base64,'' @ f) (g_images demo))
      = Inr (map (\<lambda>f. lit ''data:image/png;base64,'' @ f) (g_images demo))"
    by (simp add: all_loaded_Some)
  have la: "all_loaded (decodeAudioData ref_host) (map audioBufferToWav (g_audioFiles demo))
      = Inr (map audioBufferToWav (g_audioFiles demo))"
    by (simp add: all_loaded_Some)
  from createAudiGIF_roundtrip [OF demo_header_reads_back demo_trigger_reads_back
      demo_images_fit demo_audio_fit li la]
    demo_header_reads_back demo_trigger_reads_back demo_images_fit demo_audio_fit li la
  show ?thesis unfolding list_all_iff by blast
qed

text \<open>Claim C1 as stated fails for a TriggerMap whose loop flag is \<open>false\<close>: the
  container decodes with \<open>loop = true\<close>.\<close>

theorem roundtrip_loop_counterexample:
  "tm_loop \<lparr>tm_frame_triggers = g_triggers demo, tm_loop = False\<rparr> = False
   \<and> decode ref_host (createAudiGIF ref_host
        (authoring_with (Fin 10) (g_images demo) (g_audioFiles demo)
           \<lparr>tm_frame_triggers = g_triggers demo, tm_loop = False\<rparr>)) =
      Inr \<lparr>header = header_of demo,
           frames = map (\<lambda>f. lit ''data:image/png;base64,'' @ f) (g_images demo),
           audioBuffers = map audioBufferToWav (g_audioFiles demo),
           triggers = JArr (map trigger_json (g_triggers demo)), loop = True\<rparr>"
proof -
  have "authoring_with (Fin 10) (g_images demo) (g_audioFiles demo)
           \<lparr>tm_frame_triggers = g_triggers demo, tm_loop = False\<rparr> = demo"
    by (simp add: authoring_with_def demo_def)
  with decode_demo show ?thesis by simp
qed

text \<open>
  Claim C10.  The bytes the encoder writes end with the length-prefixed JSON text of a
  trigger map whose \<open>loop\<close> member is the constant \<open>true\<close>; they do not depend on
  the loop flag of a TriggerMap handed to the encoder; and whenever the container is one
  the decoder accepts by the conditions of C1, it decodes with \<open>loop = true\<close>.
\<close>

theorem createAudiGIF_loop_true:
  "(\<exists>pre. createAudiGIF h st =
       pre @ with_length (TextEncoder_encode (JSON_stringify h
         (JObj [(lit ''frame_triggers'', JArr (map trigger_json (g_triggers st))),
                (lit ''loop'', JBool True)]))))
   \<and> createAudiGIF h (authoring_with rate imgs clips tm)
     = createAudiGIF h (authoring_with rate imgs clips (tm\<lparr>tm_loop := b\<rparr>))
   \<and> (reads_back h (header_of st) \<and> reads_back h (triggerMap_of st)
      \<and> (\<forall>f\<in>set (g_images st). is_ascii f \<and> length f < 4294967296)
      \<and> (\<forall>b\<in>set (g_audioFiles st). length (audioBufferToWav b) < 4294967296)
      \<and> all_loaded (load_image h)
           (map (\<lambda>f. lit ''data:image/png;base64,'' @ f) (g_images st)) = Inr is
      \<and> all_loaded (decodeAudioData h) (map audioBufferToWav (g_audioFiles st)) = Inr cs
      \<longrightarrow> (\<exists>d. decode h (createAudiGIF h st) = Inr d \<and> loop d = True))"
proof (intro conjI impI)
  show "\<exists>pre. createAudiGIF h st =
       pre @ with_length (TextEncoder_encode (JSON_stringify h
         (JObj [(lit ''frame_triggers'', JArr (map trigger_json (g_triggers st))),
                (lit ''loop'', JBool True)])))"
    by (simp add: createAudiGIF_def Let_def triggerMap_of_def with_length_def)
next
  show "createAudiGIF h (authoring_with rate imgs clips tm)
     = createAudiGIF h (authoring_with rate imgs clips (tm\<lparr>tm_loop := b\<rparr>))"
    by (simp add: authoring_with_def)
next
  assume a: "reads_back h (header_of st) \<and> reads_back h (triggerMap_of st)
      \<and> (\<forall>f\<in>set (g_images st). is_ascii f \<and> length f < 4294967296)
      \<and> (\<forall>b\<in>set (g_audioFiles st). length (audioBufferToWav b) < 4294967296)
      \<and> all_loaded (load_image h)
           (map (\<lambda>f. lit ''data:image/png;base64,'' @ f) (g_images st)) = Inr is
      \<and> all_loaded (decodeAudioData h) (map audioBufferToWav (g_audioFiles st)) = Inr cs"
  then have "decode h (createAudiGIF h st) =
     Inr \<lparr>header = header_of st, frames = is, audioBuffers = cs,
          triggers = JArr (map trigger_json (g_triggers st)), loop = True\<rparr>"
    by (intro decode_createAudiGIF) simp_all
  then show "\<exists>d. decode h (createAudiGIF h st) = Inr d \<and> loop d = True" by simp
qed

theorem createAudiGIF_loop_true_witness:
  "reads_back ref_host (header_of demo) \<and> reads_back ref_host (triggerMap_of demo)
   \<and> list_all (\<lambda>f. is_ascii f \<and> length f < 4294967296) (g_images demo)
   \<and> list_all (\<lambda>b. length (audioBufferToWav b) < 4294967296) (g_audioFiles demo)
   \<and> all_loaded (load_image ref_host)
        (map (\<lambda>f. lit ''data:image/png;base64,'' @ f) (g_images demo))
      = Inr (map (\<lambda>f. lit ''data:image/png;base64,'' @ f) (g_images demo))
   \<and> all_loaded (decodeAudioData ref_host) (map audioBufferToWav (g_audioFiles demo))
      = Inr (map audioBufferToWav (g_audioFiles demo))
   \<and> (\<exists>d. decode ref_host (createAudiGIF ref_host demo) = Inr d \<and> loop d = True)"
proof -
  have li: "all_loaded (load_image ref_host)
        (map (\<lambda>f. lit ''data:image/png;base64,'' @ f) (g_images demo))
      = Inr (map (\<lambda>f. lit ''data:image/png;base64,'' @ f) (g_images demo))"
    by (simp add: all_loaded_Some)
  have la: "all_loaded (decodeAudioData ref_host) (map audioBufferToWav (g_audioFiles demo))
      = Inr (map audioBufferToWav (g_audioFiles demo))"
    by (simp add: all_loaded_Some)
  from createAudiGIF_loop_true [of ref_host demo _ _ _ _ _
      "map (\<lambda>f. lit ''data:image/png;base64,'' @ f) (g_images demo)"
      "map audioBufferToWav (g_audioFiles demo)"]
    demo_header_reads_back demo_trigger_reads_back demo_images_fit demo_audio_fit li la
  show ?thesis unfolding list_all_iff by blast
qed


section \<open>The PCM to WAV transcoder\<close>

text \<open>
  Claim C5, as amended.  The clamp keeps a sample in \<open>[-1, 1]\<close> as it is, replaces a
  smaller one (and minus infinity) by \<open>-1\<close> and a larger one (and plus infinity) by
  \<open>1\<close>, and leaves NaN as it is; so every sample other than NaN is clamped to
  \<open>[-1, 1]\<close>.  The two bytes written for a sample are the little-endian signed 16-bit
  integer obtained by truncating the clamped sample times 32768 if it is negative and times
  32767 otherwise; NaN is written as 0; 1.0 is written as 32767 and -1.0 as -32768.  In the
  buffer that \<open>audioBufferToWav\<close> returns, the two bytes at offset
  \<open>44 + 2 * (i * numChannels + channel)\<close> are those of sample \<open>i\<close> of that channel.  The
  function has no failure path: every sample yields two bytes and every buffer yields 44
  bytes and two bytes per sample and channel.
\<close>

theorem encode_sample_spec:
  "clamp_sample (Fin q) = Fin (if q < - 1 then - 1 else if 1 < q then 1 else q)
   \<and> clamp_sample PosInf = Fin 1 \<and> clamp_sample NegInf = Fin (- 1)
   \<and> clamp_sample NaN = NaN
   \<and> (x \<noteq> NaN \<longrightarrow> in_unit_range (clamp_sample x))
   \<and> (clamp_sample x = Fin r \<longrightarrow>
        getInt16 (encode_sample x) = (if r < 0 then trunc (r * 32768) else trunc (r * 32767)))
   \<and> getInt16 (encode_sample (Fin q)) =
        (if q < - 1 then - 32768 else if q < 0 then trunc (q * 32768)
         else if q \<le> 1 then trunc (q * 32767) else 32767)
   \<and> getInt16 (encode_sample PosInf) = 32767
   \<and> getInt16 (encode_sample NegInf) = - 32768
   \<and> encode_sample x =
        [word_of_int (getInt16 (encode_sample x)),
         word_of_int (getInt16 (encode_sample x) div 256)]
   \<and> encode_sample NaN = [0, 0]
   \<and> encode_sample (Fin 1) = [0xFF, 0x7F] \<and> getInt16 (encode_sample (Fin 1)) = 32767
   \<and> encode_sample (Fin (- 1)) = [0x00, 0x80] \<and> getInt16 (encode_sample (Fin (- 1))) = - 32768
   \<and> length (encode_sample x) = 2
   \<and> length (audioBufferToWav b) = 44 + 2 * (ab_length b * numberOfChannels b)
   \<and> (i < ab_length b \<and> channel < numberOfChannels b \<longrightarrow>
        take 2 (drop (44 + 2 * (i * numberOfChannels b + channel)) (audioBufferToWav b))
        = encode_sample (sample_at b channel i))"
proof (intro conjI impI)
  show "clamp_sample (Fin q) = Fin (if q < - 1 then - 1 else if 1 < q then 1 else q)"
    by (rule clamp_sample_Fin)
  show "clamp_sample PosInf = Fin 1" "clamp_sample NegInf = Fin (- 1)" "clamp_sample NaN = NaN"
    by (rule clamp_sample_inf)+
  show "in_unit_range (clamp_sample x)" if "x \<noteq> NaN"
    using that by (rule in_unit_range_clamp)
  show "getInt16 (encode_sample x) = (if r < 0 then trunc (r * 32768) else trunc (r * 32767))"
    if "clamp_sample x = Fin r" using that by (rule encode_sample_Fin)
  show "getInt16 (encode_sample (Fin q)) =
        (if q < - 1 then - 32768 else if q < 0 then trunc (q * 32768)
         else if q \<le> 1 then trunc (q * 32767) else 32767)"
    by (rule encode_sample_value)
  show "getInt16 (encode_sample PosInf) = 32767" "getInt16 (encode_sample NegInf) = - 32768"
    by (rule encode_sample_inf)+
  show "encode_sample x =
        [word_of_int (getInt16 (encode_sample x)),
         word_of_int (getInt16 (encode_sample x) div 256)]"
    by (rule encode_sample_bytes)
  show "encode_sample NaN = [0, 0]" by (rule encode_sample_NaN)
  show "encode_sample (Fin 1) = [0xFF, 0x7F]" by (rule encode_sample_one)
  show "getInt16 (encode_sample (Fin 1)) = 32767"
    by (simp add: encode_sample_one getInt16_def)
  show "encode_sample (Fin (- 1)) = [0x00, 0x80]" by (rule encode_sample_minus_one)
  show "getInt16 (encode_sample (Fin (- 1))) = - 32768"
    by (simp add: encode_sample_minus_one getInt16_def)
  show "length (encode_sample x) = 2" by (rule length_encode_sample)
  show "length (audioBufferToWav b) = 44 + 2 * (ab_length b * numberOfChannels b)"
    by (rule length_audioBufferToWav)
  show "take 2 (drop (44 + 2 * (i * numberOfChannels b + channel)) (audioBufferToWav b))
        = encode_sample (sample_at b channel i)"
    if "i < ab_length b \<and> channel < numberOfChannels b"
    using that by (intro audioBufferToWav_sample) simp_all
qed

theorem encode_sample_spec_witness:
  "Fin (3 / 2) \<noteq> NaN \<and> in_unit_range (clamp_sample (Fin (3 / 2)))
   \<and> clamp_sample (Fin (3 / 2)) = Fin 1
   \<and> getInt16 (encode_sample (Fin (3 / 2))) = 32767
   \<and> clamp_sample (Fin (- 1 / 2)) = Fin (- 1 / 2)
   \<and> getInt16 (encode_sample (Fin (- 1 / 2))) = - 16384
   \<and> clamp_sample (Fin (1 / 2)) = Fin (1 / 2)
   \<and> getInt16 (encode_sample (Fin (1 / 2))) = 16383
   \<and> 1 < ab_length demo_clip \<and> 0 < numberOfChannels demo_clip
   \<and> sample_at demo_clip 0 1 = Fin (- 1)
   \<and> take 2 (drop (44 + 2 * (1 * numberOfChannels demo_clip + 0)) (audioBufferToWav demo_clip))
       = [0x00, 0x80]"
proof -
  have c0: "clamp_sample (Fin (3 / 2)) = Fin 1" by (simp add: clamp_sample_def)
  have c1: "clamp_sample (Fin (- 1 / 2)) = Fin (- 1 / 2)" by (simp add: clamp_sample_def)
  have c2: "clamp_sample (Fin (1 / 2)) = Fin (1 / 2)" by (simp add: clamp_sample_def)
  have f0: "trunc (1 * 32767) = 32767" by (simp add: trunc_def)
  have f1: "trunc (- 1 / 2 * 32768) = - 16384" by (simp add: trunc_def)
  have f2: "trunc (1 / 2 * 32767) = 16383"
  proof -
    have "\<lfloor>(32767::rat) / 2\<rfloor> = 16383" by (simp add: floor_eq_iff)
    then show ?thesis by (simp add: trunc_def)
  qed
  have d: "1 < ab_length demo_clip" "0 < numberOfChannels demo_clip"
    "sample_at demo_clip 0 1 = Fin (- 1)"
    by (simp_all add: demo_clip_def numberOfChannels_def sample_at_def)
  have n: "Fin (3 / 2) \<noteq> NaN" by simp
  note t0 = encode_sample_spec [where x = "Fin (3 / 2)" and r = 1]
  note t1 = encode_sample_spec [where x = "Fin (- 1 / 2)" and r = "- 1 / 2"]
  note t2 = encode_sample_spec [where x = "Fin (1 / 2)" and r = "1 / 2"]
  note t3 = encode_sample_spec [where i = 1 and b = demo_clip and channel = 0]
  have r0: "in_unit_range (clamp_sample (Fin (3 / 2)))" using t0 n by blast
  have "getInt16 (encode_sample (Fin (3 / 2)))
        = (if (1::rat) < 0 then trunc (1 * 32768) else trunc (1 * 32767))"
    using t0 c0 by blast
  then have g0: "getInt16 (encode_sample (Fin (3 / 2))) = 32767" using f0 by simp
  have "getInt16 (encode_sample (Fin (- 1 / 2)))
        = (if (- 1 / 2 :: rat) < 0 then trunc (- 1 / 2 * 32768) else trunc (- 1 / 2 * 32767))"
    using t1 c1 by blast
  then have g1: "getInt16 (encode_sample (Fin (- 1 / 2))) = - 16384" using f1 by simp
  have "getInt16 (encode_sample (Fin (1 / 2)))
        = (if (1 / 2 :: rat) < 0 then trunc (1 / 2 * 32768) else trunc (1 / 2 * 32767))"
    using t2 c2 by blast
  then have g2: "getInt16 (encode_sample (Fin (1 / 2))) = 16383" using f2 by simp
  have "take 2 (drop (44 + 2 * (1 * numberOfChannels demo_clip + 0)) (audioBufferToWav demo_clip))
        = encode_sample (sample_at demo_clip 0 1)"
    using t3 d by blast
  moreover have "encode_sample (Fin (- 1)) = [0x00, 0x80]" using t3 by blast
  ultimately have g3:
    "take 2 (drop (44 + 2 * (1 * numberOfChannels demo_clip + 0)) (audioBufferToWav demo_clip))
        = [0x00, 0x80]" using d(3) by simp
  from n r0 c0 g0 c1 g1 c2 g2 d g3 show ?thesis by blast
qed

text \<open>Claim C5 as stated fails for the sample NaN, which the clamp leaves as it is.\<close>

theorem clamp_NaN_counterexample:
  "clamp_sample NaN = NaN \<and> \<not> in_unit_range (clamp_sample NaN) \<and> encode_sample NaN = [0, 0]"
  by (simp add: clamp_sample_def encode_sample_NaN)


section \<open>The playback scheduler\<close>

lemma element_at_nat:
  "element_at xs (Fin (of_nat i)) = (if i < length xs then Some (xs ! i) else None)"
  by (simp add: element_at_def is_integer_def)




lemma dispatch_filter:
  "dispatch cur clips ts out =
     out @ map (\<lambda>t. the (element_at clips (audio t)))
              (filter (\<lambda>t. js_eq (frame t) cur \<and> element_at clips (audio t) \<noteq> None) ts)"
  by (induction ts arbitrary: out) (auto split: option.splits)

lemma element_at_Some_nonempty: "element_at xs x = Some y \<Longrightarrow> xs \<noteq> []"
  by (auto simp: element_at_def split: jsnum.splits if_splits)

lemma animate_Some:
  assumes "isPlaying w" "decoded w = Some d" "element_at (l_frames d) (currentFrame w) = Some img"
  shows "animate w =
     w\<lparr>drawn := drawn w @ [img],
       started := dispatch (currentFrame w) (l_audioBuffers d) (l_triggers d) (started w),
       currentFrame := js_rem (js_succ (currentFrame w)) (l_numFrames d),
       timeout_count := Suc (timeout_count w),
       timeouts := timeouts w @ [Suc (timeout_count w)],
       animationId := Some (Suc (timeout_count w))\<rparr>"
  using assms element_at_Some_nonempty [OF assms(3)]
  by (simp add: animate_def setTimeout_def Let_def)




lemma demo_playing_sel:
  "isPlaying (demo_playing i)" "decoded (demo_playing i) = Some demo_loaded"
  "currentFrame (demo_playing i) = Fin (of_nat i)" "started (demo_playing i) = []"
  "drawn (demo_playing i) = []" "timeouts (demo_playing i) = []"
  "timeout_count (demo_playing i) = 0" "thrown (demo_playing i) = []"
  by (simp_all add: demo_playing_def new_player_def)

lemma demo_loaded_sel:
  "l_numFrames demo_loaded = Fin 3" "length (l_frames demo_loaded) = 3"
  "l_triggers demo_loaded = [\<lparr>frame = Fin 1, audio = Fin 0\<rparr>]"
  "l_audioBuffers demo_loaded = [audioBufferToWav demo_clip]"
  "l_frames demo_loaded = [lit ''frame0'', lit ''frame1'', lit ''frame2'']"
  by (simp_all add: demo_loaded_def)

lemma element_at_0: "element_at (x # xs) (Fin 0) = Some x"
  using element_at_nat [of "x # xs" 0] by simp


text \<open>
  Claim C7.  Within a tick, a trigger whose \<open>audio\<close> index has no decoded clip changes
  nothing: the clips started are those started without it.  A trigger on the current frame
  whose clip exists starts that clip, after the clips of the triggers before it and before
  those of the triggers after it.  A tick that draws its frame starts exactly the clips
  of \<open>dispatch\<close> and throws nothing; and the clips started are, in order, the clips of
  the triggers on the current frame that have one.
\<close>

theorem dispatch_skips_missing:
  "(element_at clips (audio t) = None
      \<longrightarrow> dispatch cur clips (ts1 @ t # ts2) out = dispatch cur clips (ts1 @ ts2) out)
   \<and> (js_eq (frame t) cur \<and> element_at clips (audio t) = Some c
      \<longrightarrow> dispatch cur clips (ts1 @ t # ts2) out
          = dispatch cur clips ts2 (dispatch cur clips ts1 out @ [c]))
   \<and> (isPlaying w \<and> decoded w = Some d \<and> element_at (l_frames d) (currentFrame w) = Some img
      \<longrightarrow> started (animate w)
            = dispatch (currentFrame w) (l_audioBuffers d) (l_triggers d) (started w)
          \<and> thrown (animate w) = thrown w)
   \<and> dispatch cur clips ts out =
       out @ map (\<lambda>t. the (element_at clips (audio t)))
               (filter (\<lambda>t. js_eq (frame t) cur \<and> element_at clips (audio t) \<noteq> None) ts)"
proof (intro conjI impI)
  assume "element_at clips (audio t) = None"
  then show "dispatch cur clips (ts1 @ t # ts2) out = dispatch cur clips (ts1 @ ts2) out"
    by (simp add: dispatch_filter)
next
  assume "js_eq (frame t) cur \<and> element_at clips (audio t) = Some c"
  then show "dispatch cur clips (ts1 @ t # ts2) out
          = dispatch cur clips ts2 (dispatch cur clips ts1 out @ [c])"
    by (simp add: dispatch_filter)
next
  assume a: "isPlaying w \<and> decoded w = Some d \<and> element_at (l_frames d) (currentFrame w) = Some img"
  then have s: "animate w =
     w\<lparr>drawn := drawn w @ [img],
       started := dispatch (currentFrame w) (l_audioBuffers d) (l_triggers d) (started w),
       currentFrame := js_rem (js_succ (currentFrame w)) (l_numFrames d),
       timeout_count := Suc (timeout_count w),
       timeouts := timeouts w @ [Suc (timeout_count w)],
       animationId := Some (Suc (timeout_count w))\<rparr>"
    by (intro animate_Some) simp_all
  show "started (animate w)
            = dispatch (currentFrame w) (l_audioBuffers d) (l_triggers d) (started w)"
    by (simp add: s)
  show "thrown (animate w) = thrown w" by (simp add: s)
next
  show "dispatch cur clips ts out =
       out @ map (\<lambda>t. the (element_at clips (audio t)))
               (filter (\<lambda>t. js_eq (frame t) cur \<and> element_at clips (audio t) \<noteq> None) ts)"
    by (rule dispatch_filter)
qed

theorem dispatch_skips_missing_witness:
  "element_at [audioBufferToWav demo_clip] (audio \<lparr>frame = Fin 0, audio = Fin 5\<rparr>) = None
   \<and> dispatch (Fin 0) [audioBufferToWav demo_clip]
        ([] @ \<lparr>frame = Fin 0, audio = Fin 5\<rparr> # [\<lparr>frame = Fin 0, audio = Fin 0\<rparr>]) []
      = dispatch (Fin 0) [audioBufferToWav demo_clip] ([] @ [\<lparr>frame = Fin 0, audio = Fin 0\<rparr>]) []
   \<and> js_eq (frame \<lparr>frame = Fin 0, audio = Fin 0\<rparr>) (Fin 0)
   \<and> element_at [audioBufferToWav demo_clip] (audio \<lparr>frame = Fin 0, audio = Fin 0\<rparr>)
      = Some (audioBufferToWav demo_clip)
   \<and> dispatch (Fin 0) [audioBufferToWav demo_clip]
        ([\<lparr>frame = Fin 0, audio = Fin 5\<rparr>] @ \<lparr>frame = Fin 0, audio = Fin 0\<rparr> # []) []
      = [audioBufferToWav demo_clip]
   \<and> isPlaying (demo_playing 1) \<and> decoded (demo_playing 1) = Some demo_loaded
   \<and> element_at (l_frames demo_loaded) (currentFrame (demo_playing 1)) = Some (lit ''frame1'')
   \<and> started (animate (demo_playing 1)) = [audioBufferToWav demo_clip]
   \<and> thrown (animate (demo_playing 1)) = []"
proof -
  have m: "element_at [audioBufferToWav demo_clip] (audio \<lparr>frame = Fin 0, audio = Fin 5\<rparr>) = None"
    by (simp add: element_at_def is_integer_def)
  have f: "element_at (l_frames demo_loaded) (currentFrame (demo_playing 1)) = Some (lit ''frame1'')"
    using element_at_nat [of "l_frames demo_loaded" 1]
    by (simp add: demo_playing_sel demo_loaded_sel)
  from dispatch_skips_missing [of "[audioBufferToWav demo_clip]" "\<lparr>frame = Fin 0, audio = Fin 5\<rparr>"
      "Fin 0" "[]" "[\<lparr>frame = Fin 0, audio = Fin 0\<rparr>]" "[]"]
    dispatch_skips_missing [of "[audioBufferToWav demo_clip]" "\<lparr>frame = Fin 0, audio = Fin 0\<rparr>"
      "Fin 0" "[\<lparr>frame = Fin 0, audio = Fin 5\<rparr>]" "[]" "[]" "audioBufferToWav demo_clip"
      "demo_playing 1" demo_loaded "lit ''frame1''"]
    m f
  show ?thesis
    by (simp add: element_at_0 demo_playing_sel demo_loaded_sel)
qed

lemma pause_sel:
  "currentFrame (pause w) = currentFrame w" "decoded (pause w) = decoded w"
  "isPlaying (pause w) = False" "drawn (pause w) = drawn w" "timeouts (pause w) = timeouts w"
  "timeout_count (pause w) = timeout_count w" "started (pause w) = started w"
  by (simp_all add: pause_def Let_def cancelAnimationFrame_def split: option.splits)

lemma no_frames_header_text:
  "ref_stringify (header_of no_frames_session) =
   lit ''{\"magic\":\"AGIF\",\"version\":\"1.0\",\"width\":300,\"height\":300,\"frameRate\":10,\"audioFormat\":\"wav\",\"numFrames\":0,\"numAudioClips\":0}''"
  by (simp add: ref_eval no_frames_session_def)

lemma no_frames_trigger_text:
  "ref_stringify (triggerMap_of no_frames_session) = lit ''{\"frame_triggers\":[],\"loop\":true}''"
  by (simp add: ref_eval no_frames_session_def)

lemma no_frames_header_reads_back: "reads_back ref_host (header_of no_frames_session)"
proof -
  have "ref_parse (ref_stringify (header_of no_frames_session)) = Some (header_of no_frames_session)"
    unfolding no_frames_header_text by (simp add: ref_eval no_frames_session_def)
  moreover have "is_ascii (ref_stringify (header_of no_frames_session))"
    unfolding no_frames_header_text by (simp add: is_ascii_def lit_def)
  moreover have "length (ref_stringify (header_of no_frames_session)) < 4294967296"
    unfolding no_frames_header_text by (simp add: lit_def)
  ultimately show ?thesis by (simp add: reads_back_def)
qed

lemma no_frames_trigger_reads_back: "reads_back ref_host (triggerMap_of no_frames_session)"
proof -
  have "ref_parse (ref_stringify (triggerMap_of no_frames_session))
        = Some (triggerMap_of no_frames_session)"
    unfolding no_frames_trigger_text by (simp add: ref_eval no_frames_session_def)
  moreover have "is_ascii (ref_stringify (triggerMap_of no_frames_session))"
    unfolding no_frames_trigger_text by (simp add: is_ascii_def lit_def)
  moreover have "length (ref_stringify (triggerMap_of no_frames_session)) < 4294967296"
    unfolding no_frames_trigger_text by (simp add: lit_def)
  ultimately show ?thesis by (simp add: reads_back_def)
qed

lemma decode_no_frames:
  "decode ref_host (createAudiGIF ref_host no_frames_session) =
     Inr \<lparr>header = header_of no_frames_session, frames = [], audioBuffers = [],
          triggers = JArr [], loop = True\<rparr>"
proof -
  have s: "g_images no_frames_session = []" "g_audioFiles no_frames_session = []"
    "g_triggers no_frames_session = []" by (simp_all add: no_frames_session_def)
  from decode_createAudiGIF [of ref_host no_frames_session "[]" "[]",
      OF no_frames_header_reads_back no_frames_trigger_reads_back]
  show ?thesis by (simp add: s)
qed

lemma loaded_of_no_frames:
  "loaded_of ref_host \<lparr>header = header_of no_frames_session, frames = [], audioBuffers = [],
          triggers = JArr [], loop = True\<rparr> = Some no_frames"
  using loaded_of_createAudiGIF [of ref_host no_frames_session "[]" "[]"]
  by (simp add: no_frames_session_def no_frames_def)

lemma play_cases:
  assumes "\<not> isPlaying w" "decoded w = Some d"
  shows "l_frames d = [] \<Longrightarrow> play w = w\<lparr>isPlaying := True\<rparr>"
    and "element_at (l_frames d) (currentFrame w) = Some img \<Longrightarrow>
      play w = w\<lparr>isPlaying := True, drawn := drawn w @ [img],
        started := dispatch (currentFrame w) (l_audioBuffers d) (l_triggers d) (started w),
        currentFrame := js_rem (js_succ (currentFrame w)) (l_numFrames d),
        timeout_count := Suc (timeout_count w),
        timeouts := timeouts w @ [Suc (timeout_count w)],
        animationId := Some (Suc (timeout_count w))\<rparr>"
    and "l_frames d \<noteq> [] \<Longrightarrow> element_at (l_frames d) (currentFrame w) = None \<Longrightarrow>
      play w = w\<lparr>isPlaying := True, thrown := thrown w @ [TypeError]\<rparr>"
proof -
  have p: "play w = animate (w\<lparr>isPlaying := True\<rparr>)" using assms by (simp add: play_def)
  show "l_frames d = [] \<Longrightarrow> play w = w\<lparr>isPlaying := True\<rparr>"
    using assms by (simp add: p animate_def)
  show "l_frames d \<noteq> [] \<Longrightarrow> element_at (l_frames d) (currentFrame w) = None \<Longrightarrow>
      play w = w\<lparr>isPlaying := True, thrown := thrown w @ [TypeError]\<rparr>"
    using assms by (simp add: p animate_def)
  assume e: "element_at (l_frames d) (currentFrame w) = Some img"
  have h: "isPlaying (w\<lparr>isPlaying := True\<rparr>)"
    "decoded (w\<lparr>isPlaying := True\<rparr>) = Some d"
    "element_at (l_frames d) (currentFrame (w\<lparr>isPlaying := True\<rparr>)) = Some img"
    using assms e by simp_all
  show "play w = w\<lparr>isPlaying := True, drawn := drawn w @ [img],
        started := dispatch (currentFrame w) (l_audioBuffers d) (l_triggers d) (started w),
        currentFrame := js_rem (js_succ (currentFrame w)) (l_numFrames d),
        timeout_count := Suc (timeout_count w),
        timeouts := timeouts w @ [Suc (timeout_count w)],
        animationId := Some (Suc (timeout_count w))\<rparr>"
    unfolding p using animate_Some [OF h] by simp
qed

text \<open>
  Claim C8, as amended.  \<open>play\<close> changes nothing when the player is playing or has no
  container.  Otherwise it always sets \<open>isPlaying\<close>, and then: with a container that has
  no frames it does nothing else (line 164 returns before any timer is set); with a frame at
  the current index it draws that frame, dispatches its triggers, advances the index and
  leaves one new timer pending; with frames but none at the current index \<open>drawImage\<close>
  throws.  \<open>pause\<close> keeps the current index and the container and clears
  \<open>isPlaying\<close>; so \<open>play\<close> after \<open>pause\<close> draws the frame at the index the player
  had when it was paused.
\<close>

theorem play_resumes:
  "(isPlaying w \<or> decoded w = None \<longrightarrow> play w = w)
   \<and> (\<not> isPlaying w \<and> decoded w = Some d \<longrightarrow> isPlaying (play w))
   \<and> (\<not> isPlaying w \<and> decoded w = Some d \<and> l_frames d = []
      \<longrightarrow> play w = w\<lparr>isPlaying := True\<rparr>)
   \<and> (\<not> isPlaying w \<and> decoded w = Some d
        \<and> element_at (l_frames d) (currentFrame w) = Some img
      \<longrightarrow> play w = w\<lparr>isPlaying := True, drawn := drawn w @ [img],
            started := dispatch (currentFrame w) (l_audioBuffers d) (l_triggers d) (started w),
            currentFrame := js_rem (js_succ (currentFrame w)) (l_numFrames d),
            timeout_count := Suc (timeout_count w),
            timeouts := timeouts w @ [Suc (timeout_count w)],
            animationId := Some (Suc (timeout_count w))\<rparr>)
   \<and> (\<not> isPlaying w \<and> decoded w = Some d \<and> l_frames d \<noteq> []
        \<and> element_at (l_frames d) (currentFrame w) = None
      \<longrightarrow> play w = w\<lparr>isPlaying := True, thrown := thrown w @ [TypeError]\<rparr>)
   \<and> (\<not> isPlaying w \<and> decoded w = Some d
        \<and> element_at (l_frames d) (currentFrame w) = Some img
      \<longrightarrow> isPlaying (play w) \<and> drawn (play w) = drawn w @ [img]
          \<and> timeouts (play w) = timeouts w @ [Suc (timeout_count w)]
          \<and> animationId (play w) = Some (Suc (timeout_count w)))
   \<and> currentFrame (pause w) = currentFrame w \<and> decoded (pause w) = decoded w
   \<and> \<not> isPlaying (pause w) \<and> drawn (pause w) = drawn w \<and> started (pause w) = started w
   \<and> (decoded w = Some d \<and> element_at (l_frames d) (currentFrame w) = Some img
      \<longrightarrow> isPlaying (play (pause w)) \<and> drawn (play (pause w)) = drawn w @ [img]
          \<and> currentFrame (play (pause w)) = js_rem (js_succ (currentFrame w)) (l_numFrames d))"
proof (intro conjI impI)
  assume "isPlaying w \<or> decoded w = None"
  then show "play w = w" by (auto simp: play_def)
next
  assume a: "\<not> isPlaying w \<and> decoded w = Some d"
  then have p: "play w = animate (w\<lparr>isPlaying := True\<rparr>)" by (simp add: play_def)
  show "isPlaying (play w)"
    unfolding p using a
    by (simp add: animate_def setTimeout_def Let_def split: option.splits)
next
  assume "\<not> isPlaying w \<and> decoded w = Some d \<and> l_frames d = []"
  then show "play w = w\<lparr>isPlaying := True\<rparr>" by (intro play_cases(1) [of w d]) simp_all
next
  assume "\<not> isPlaying w \<and> decoded w = Some d
        \<and> element_at (l_frames d) (currentFrame w) = Some img"
  then show "play w = w\<lparr>isPlaying := True, drawn := drawn w @ [img],
            started := dispatch (currentFrame w) (l_audioBuffers d) (l_triggers d) (started w),
            currentFrame := js_rem (js_succ (currentFrame w)) (l_numFrames d),
            timeout_count := Suc (timeout_count w),
            timeouts := timeouts w @ [Suc (timeout_count w)],
            animationId := Some (Suc (timeout_count w))\<rparr>"
    by (intro play_cases(2) [of w d]) simp_all
next
  assume "\<not> isPlaying w \<and> decoded w = Some d \<and> l_frames d \<noteq> []
        \<and> element_at (l_frames d) (currentFrame w) = None"
  then show "play w = w\<lparr>isPlaying := True, thrown := thrown w @ [TypeError]\<rparr>"
    by (intro play_cases(3) [of w d]) simp_all
next
  assume a: "\<not> isPlaying w \<and> decoded w = Some d
        \<and> element_at (l_frames d) (currentFrame w) = Some img"
  then have s: "play w = w\<lparr>isPlaying := True, drawn := drawn w @ [img],
            started := dispatch (currentFrame w) (l_audioBuffers d) (l_triggers d) (started w),
            currentFrame := js_rem (js_succ (currentFrame w)) (l_numFrames d),
            timeout_count := Suc (timeout_count w),
            timeouts := timeouts w @ [Suc (timeout_count w)],
            animationId := Some (Suc (timeout_count w))\<rparr>"
    by (intro play_cases(2) [of w d]) simp_all
  show "isPlaying (play w)" "drawn (play w) = drawn w @ [img]"
    "timeouts (play w) = timeouts w @ [Suc (timeout_count w)]"
    "animationId (play w) = Some (Suc (timeout_count w))"
    by (simp_all add: s)
next
  show "currentFrame (pause w) = currentFrame w" "decoded (pause w) = decoded w"
    "\<not> isPlaying (pause w)" "drawn (pause w) = drawn w" "started (pause w) = started w"
    by (simp_all add: pause_sel)
next
  assume a: "decoded w = Some d \<and> element_at (l_frames d) (currentFrame w) = Some img"
  have h: "\<not> isPlaying (pause w)" "decoded (pause w) = Some d"
    "element_at (l_frames d) (currentFrame (pause w)) = Some img"
    using a by (simp_all add: pause_sel)
  note s = play_cases(2) [OF h(1,2,3)]
  show "isPlaying (play (pause w))" "drawn (play (pause w)) = drawn w @ [img]"
    "currentFrame (play (pause w)) = js_rem (js_succ (currentFrame w)) (l_numFrames d)"
    by (simp_all add: s pause_sel del: js_succ.simps js_rem.simps)
qed

text \<open>Claim C8 as stated fails for a container without frames, which \<open>decode\<close>
  accepts: \<open>play\<close> sets \<open>isPlaying\<close> and starts no timing loop.\<close>

theorem play_no_frames_counterexample:
  "decode ref_host (createAudiGIF ref_host no_frames_session) =
     Inr \<lparr>header = header_of no_frames_session, frames = [], audioBuffers = [],
          triggers = JArr [], loop = True\<rparr>
   \<and> loaded_of ref_host \<lparr>header = header_of no_frames_session, frames = [], audioBuffers = [],
          triggers = JArr [], loop = True\<rparr> = Some no_frames
   \<and> \<not> isPlaying (new_player (Some no_frames))
   \<and> decoded (new_player (Some no_frames)) = Some no_frames
   \<and> isPlaying (play (new_player (Some no_frames)))
   \<and> timeouts (play (new_player (Some no_frames))) = []
   \<and> rafs (play (new_player (Some no_frames))) = []
   \<and> drawn (play (new_player (Some no_frames))) = []"
proof -
  have "play (new_player (Some no_frames)) = (new_player (Some no_frames))\<lparr>isPlaying := True\<rparr>"
    by (rule play_cases(1) [of "new_player (Some no_frames)" no_frames])
       (simp_all add: new_player_def no_frames_def)
  then show ?thesis
    by (simp add: decode_no_frames loaded_of_no_frames new_player_def)
qed

lemma new_player_sel:
  "isPlaying (new_player d) = False" "decoded (new_player d) = d"
  "currentFrame (new_player d) = Fin 0" "drawn (new_player d) = []"
  "timeouts (new_player d) = []" "timeout_count (new_player d) = 0"
  "rafs (new_player d) = []" "raf_count (new_player d) = 0" "started (new_player d) = []"
  by (simp_all add: new_player_def)

lemma floor_third: "\<lfloor>(1::rat) / 3\<rfloor> = 0" "\<lfloor>(2::rat) / 3\<rfloor> = 0"
  by (simp_all add: floor_eq_iff)

lemma play_demo:
  "play (new_player (Some demo_loaded)) =
     (new_player (Some demo_loaded))
       \<lparr>isPlaying := True, currentFrame := Fin 1, animationId := Some 1,
        timeouts := [1], timeout_count := 1, drawn := [lit ''frame0'']\<rparr>"
  by (simp add: play_def animate_def new_player_def demo_loaded_def element_at_def
      is_integer_def setTimeout_def Let_def trunc_def floor_third)

lemma pause_play_demo:
  "pause (play (new_player (Some demo_loaded))) =
     (new_player (Some demo_loaded))
       \<lparr>currentFrame := Fin 1, timeouts := [1], timeout_count := 1, drawn := [lit ''frame0'']\<rparr>"
  unfolding play_demo
  by (simp add: pause_def Let_def cancelAnimationFrame_def new_player_def)

lemma replay_demo:
  "play (pause (play (new_player (Some demo_loaded)))) =
     (new_player (Some demo_loaded))
       \<lparr>isPlaying := True, currentFrame := Fin 2, animationId := Some 2,
        timeouts := [1, 2], timeout_count := 2, drawn := [lit ''frame0'', lit ''frame1''],
        started := [audioBufferToWav demo_clip]\<rparr>"
  unfolding pause_play_demo
  by (simp add: play_def animate_def new_player_def demo_loaded_def element_at_def
      is_integer_def setTimeout_def Let_def trunc_def floor_third)

text \<open>
  Claim C9 does not hold of the program.  \<open>pause\<close> passes the handle of a
  \<open>setTimeout\<close> timer to \<open>cancelAnimationFrame\<close>, which cancels animation frame
  requests, so the pending timers after \<open>pause\<close> are those before it.  On the three-frame
  container: after \<open>play\<close> and \<open>pause\<close> timer 1 is still pending, and it fires (its
  callback requests animation frame 1, whose tick draws nothing while the player stays
  paused); when \<open>play\<close> is called again before it fires, the stale tick draws a frame
  of its own and two timers are pending.
\<close>

theorem pause_leaves_timer:
  "timeouts (pause w) = timeouts w
   \<and> timeouts (play (new_player (Some demo_loaded))) = [1]
   \<and> timeouts (pause (play (new_player (Some demo_loaded)))) = [1]
   \<and> rafs (fire_timeout 1 (pause (play (new_player (Some demo_loaded))))) = [1]
   \<and> drawn (fire_raf 1 (fire_timeout 1 (pause (play (new_player (Some demo_loaded))))))
       = [lit ''frame0'']
   \<and> drawn (play (pause (play (new_player (Some demo_loaded)))))
       = [lit ''frame0'', lit ''frame1'']
   \<and> drawn (fire_raf 1 (fire_timeout 1 (play (pause (play (new_player (Some demo_loaded)))))))
       = [lit ''frame0'', lit ''frame1'', lit ''frame2'']
   \<and> timeouts (fire_raf 1 (fire_timeout 1 (play (pause (play (new_player (Some demo_loaded)))))))
       = [2, 3]"
proof (intro conjI)
  show "timeouts (pause w) = timeouts w"
    by (simp add: pause_def Let_def cancelAnimationFrame_def split: option.splits)
  show "timeouts (play (new_player (Some demo_loaded))) = [1]" by (simp add: play_demo)
  show "timeouts (pause (play (new_player (Some demo_loaded)))) = [1]"
    by (simp add: pause_play_demo)
  show "rafs (fire_timeout 1 (pause (play (new_player (Some demo_loaded))))) = [1]"
    unfolding pause_play_demo by (simp add: fire_timeout_def new_player_def)
  show "drawn (fire_raf 1 (fire_timeout 1 (pause (play (new_player (Some demo_loaded))))))
       = [lit ''frame0'']"
    unfolding pause_play_demo
    by (simp add: fire_timeout_def fire_raf_def animate_def new_player_def)
  show "drawn (play (pause (play (new_player (Some demo_loaded)))))
       = [lit ''frame0'', lit ''frame1'']" by (simp add: replay_demo)
  have f: "fire_raf 1 (fire_timeout 1 (play (pause (play (new_player (Some demo_loaded)))))) =
     (new_player (Some demo_loaded))
       \<lparr>isPlaying := True, currentFrame := Fin 0, animationId := Some 3,
        timeouts := [2, 3], timeout_count := 3, raf_count := 1,
        drawn := [lit ''frame0'', lit ''frame1'', lit ''frame2''],
        started := [audioBufferToWav demo_clip]\<rparr>"
    unfolding replay_demo
    by (simp add: fire_timeout_def fire_raf_def animate_def new_player_def
        demo_loaded_def element_at_def is_integer_def setTimeout_def Let_def trunc_def)
  show "drawn (fire_raf 1 (fire_timeout 1 (play (pause (play (new_player (Some demo_loaded)))))))
       = [lit ''frame0'', lit ''frame1'', lit ''frame2'']" unfolding f by simp
  show "timeouts (fire_raf 1 (fire_timeout 1 (play (pause (play (new_player (Some demo_loaded)))))))
       = [2, 3]" unfolding f by simp
qed

theorem play_resumes_witness:
  "(isPlaying (demo_playing 0) \<or> decoded (demo_playing 0) = None)
   \<and> play (demo_playing 0) = demo_playing 0
   \<and> \<not> isPlaying (new_player (Some no_frames))
   \<and> decoded (new_player (Some no_frames)) = Some no_frames
   \<and> l_frames no_frames = []
   \<and> play (new_player (Some no_frames)) = (new_player (Some no_frames))\<lparr>isPlaying := True\<rparr>
   \<and> \<not> isPlaying (new_player (Some demo_loaded))
   \<and> decoded (new_player (Some demo_loaded)) = Some demo_loaded
   \<and> element_at (l_frames demo_loaded) (currentFrame (new_player (Some demo_loaded)))
       = Some (lit ''frame0'')
   \<and> isPlaying (play (new_player (Some demo_loaded)))
   \<and> drawn (play (new_player (Some demo_loaded))) = [lit ''frame0'']
   \<and> timeouts (play (new_player (Some demo_loaded))) = [1]
   \<and> animationId (play (new_player (Some demo_loaded))) = Some 1
   \<and> \<not> isPlaying ((new_player (Some demo_loaded))\<lparr>currentFrame := Fin 7\<rparr>)
   \<and> l_frames demo_loaded \<noteq> []
   \<and> element_at (l_frames demo_loaded)
        (currentFrame ((new_player (Some demo_loaded))\<lparr>currentFrame := Fin 7\<rparr>)) = None
   \<and> play ((new_player (Some demo_loaded))\<lparr>currentFrame := Fin 7\<rparr>)
       = (new_player (Some demo_loaded))\<lparr>currentFrame := Fin 7, isPlaying := True,
            thrown := [TypeError]\<rparr>
   \<and> decoded (play (new_player (Some demo_loaded))) = Some demo_loaded
   \<and> element_at (l_frames demo_loaded) (currentFrame (play (new_player (Some demo_loaded))))
       = Some (lit ''frame1'')
   \<and> isPlaying (play (pause (play (new_player (Some demo_loaded)))))
   \<and> drawn (play (pause (play (new_player (Some demo_loaded)))))
       = [lit ''frame0'', lit ''frame1'']"
proof -
  let ?w = "new_player (Some demo_loaded)"
  let ?e = "new_player (Some no_frames)"
  let ?b = "(new_player (Some demo_loaded))\<lparr>currentFrame := Fin 7\<rparr>"
  have p0: "isPlaying (demo_playing 0) \<or> decoded (demo_playing 0) = None"
    by (simp add: demo_playing_sel)
  have n: "\<not> isPlaying ?e" "decoded ?e = Some no_frames" "l_frames no_frames = []"
    by (simp_all add: new_player_sel no_frames_def)
  have w: "\<not> isPlaying ?w" "decoded ?w = Some demo_loaded"
    by (simp_all add: new_player_sel)
  have e0: "element_at (l_frames demo_loaded) (currentFrame ?w) = Some (lit ''frame0'')"
    by (simp add: new_player_sel demo_loaded_sel element_at_0)
  have b: "\<not> isPlaying ?b" "decoded ?b = Some demo_loaded" "l_frames demo_loaded \<noteq> []"
    "element_at (l_frames demo_loaded) (currentFrame ?b) = None"
    by (simp_all add: new_player_def demo_loaded_sel element_at_def is_integer_def)
  have e1: "element_at (l_frames demo_loaded) (currentFrame (play ?w)) = Some (lit ''frame1'')"
    using element_at_nat [of "l_frames demo_loaded" 1] by (simp add: play_demo demo_loaded_sel)
  have d1: "decoded (play ?w) = Some demo_loaded"
    by (simp add: play_demo new_player_sel)
  note t0 = play_resumes [of "demo_playing 0"]
  note t1 = play_resumes [of ?e no_frames]
  note t2 = play_resumes [of ?w demo_loaded "lit ''frame0''"]
  note t3 = play_resumes [of ?b demo_loaded]
  note t4 = play_resumes [of "play ?w" demo_loaded "lit ''frame1''"]
  have r0: "play (demo_playing 0) = demo_playing 0" using t0 p0 by blast
  have r1: "play ?e = ?e\<lparr>isPlaying := True\<rparr>" using t1 n by blast
  have r2: "isPlaying (play ?w) \<and> drawn (play ?w) = drawn ?w @ [lit ''frame0'']
          \<and> timeouts (play ?w) = timeouts ?w @ [Suc (timeout_count ?w)]
          \<and> animationId (play ?w) = Some (Suc (timeout_count ?w))"
    using t2 w e0 by blast
  have r3: "play ?b = ?b\<lparr>isPlaying := True, thrown := thrown ?b @ [TypeError]\<rparr>"
    using t3 b by blast
  have r4: "isPlaying (play (pause (play ?w)))
          \<and> drawn (play (pause (play ?w))) = drawn (play ?w) @ [lit ''frame1'']"
    using t4 d1 e1 by blast
  have r2': "isPlaying (play ?w)" "drawn (play ?w) = [lit ''frame0'']"
    "timeouts (play ?w) = [1]" "animationId (play ?w) = Some 1"
    using r2 by (simp_all add: new_player_sel)
  have r3': "play ?b = (new_player (Some demo_loaded))\<lparr>currentFrame := Fin 7, isPlaying := True,
            thrown := [TypeError]\<rparr>"
    unfolding r3 by (simp add: new_player_def)
  have r4': "isPlaying (play (pause (play ?w)))"
    "drawn (play (pause (play ?w))) = [lit ''frame0'', lit ''frame1'']"
    using r4 r2'(2) by simp_all
  from p0 r0 n r1 w e0 r2' b(1,3,4) r3' d1 e1 r4' show ?thesis by blast
qed

end
